theory Spec2Isabelle
  imports Main "HOL-Library.Word" "HOL-Library.Sublist"
begin

unbundle bit_operations_syntax

section \<open>Machine arithmetic and memory\<close>

text \<open>
  The C types \<open>unsigned\<close> and \<open>uint32_t\<close> are natural numbers below \<open>2 ^ 32\<close>; every
  arithmetic result that the C code computes in such a type is reduced by \<open>u32\<close>.
  \<open>uint16_t\<close> values are reduced by \<open>u16\<close>. A value of type \<open>int\<close> is represented by
  its 32-bit two's complement pattern. Pointers are byte addresses; pointer arithmetic
  is ordinary addition (\<open>size_t\<close> is 64 bits wide and does not wrap on the offsets that
  occur here).
\<close>

definition u32 :: "nat \<Rightarrow> nat" where
  "u32 n = n mod 2 ^ 32"

definition u16 :: "nat \<Rightarrow> nat" where
  "u16 n = n mod 2 ^ 16"

text \<open>Unsigned 32-bit subtraction \<open>a - b\<close>, which wraps around below zero.\<close>

definition sub32 :: "nat \<Rightarrow> nat \<Rightarrow> nat" where
  "sub32 a b = (a + 2 ^ 32 - b) mod 2 ^ 32"

text \<open>Bitwise complement \<open>~n\<close> of a 32-bit value.\<close>

definition not32 :: "nat \<Rightarrow> nat" where
  "not32 n = 2 ^ 32 - 1 - n"

text \<open>
  Memory is one byte-addressed store; the two buffers of a call are address ranges of it,
  so that overlap of the buffers is expressible. The state of a run, the \<open>heap\<close>, is
  \<open>Some\<close> memory, or \<open>None\<close> once an access with undefined behaviour has been executed:
  every statement maps \<open>None\<close> to \<open>None\<close>. Pointers and \<open>unsigned\<close> (or \<open>uint32_t\<close>,
  \<open>uint16_t\<close>) values are told apart by the names of their types.
\<close>

type_synonym pointer = nat

type_synonym unsigned = nat

type_synonym memory = "pointer \<Rightarrow> 8 word"

type_synonym heap = "memory option"

text \<open>The five element types that the macros are instantiated with.\<close>

datatype pixel_t = uint8_t | uint16_t | uint32_t | uint64_t | pan_uint128_t

fun sizeof :: "pixel_t \<Rightarrow> nat" where
  "sizeof uint8_t = 1"
| "sizeof uint16_t = 2"
| "sizeof uint32_t = 4"
| "sizeof uint64_t = 8"
| "sizeof pan_uint128_t = 16"

text \<open>
  Modelled from the spec: the alignment that an object of each element type requires comes
  from the ABI, which is not among the sources; the spec asks the caller for aligned-enough
  buffers. Each type is taken as aligned to its size, as in the 64-bit ABIs, where
  \<open>pan_uint128_t\<close> is \<open>__uint128_t\<close> (the case \<open>__SIZEOF_INT128__\<close> of its declaration).
\<close>

fun alignof :: "pixel_t \<Rightarrow> nat" where
  "alignof uint8_t = 1"
| "alignof uint16_t = 2"
| "alignof uint32_t = 4"
| "alignof uint64_t = 8"
| "alignof pan_uint128_t = 16"

text \<open>
  The assignment \<open>*outp = *inp\<close> through two pointers of type \<open>pixel_t *\<close>. An access
  through a pointer that is not aligned for \<open>pixel_t\<close> has undefined behaviour; otherwise
  the \<open>sizeof t\<close> bytes at \<open>inp\<close> are read and then written at \<open>outp\<close>.
\<close>

definition assign_pixel :: "pixel_t \<Rightarrow> pointer \<Rightarrow> pointer \<Rightarrow> heap \<Rightarrow> heap" where
  "assign_pixel t outp inp s =
     (case s of
        None \<Rightarrow> None
      | Some m \<Rightarrow>
          if alignof t dvd outp \<and> alignof t dvd inp then
            Some (\<lambda>a. if outp \<le> a \<and> a < outp + sizeof t then m (inp + (a - outp)) else m a)
          else None)"

text \<open>
  The counting loop \<open>for (c = i; c < n; ++c) body\<close>, whose body neither changes the
  counter nor the bound.
\<close>

function for_loop :: "nat \<Rightarrow> nat \<Rightarrow> (nat \<Rightarrow> 's \<Rightarrow> 's) \<Rightarrow> 's \<Rightarrow> 's" where
  "for_loop i n body s = (if i < n then for_loop (Suc i) n body (body i s) else s)"
  by pat_completeness auto
termination
  by (relation "measure (\<lambda>(i, n, body, s). n - i)") auto

declare for_loop.simps [simp del]

text \<open>
  Modelled from the spec: the macros \<open>DIV_ROUND_UP\<close> and \<open>MIN2\<close> come from
  \<open>util/macros.h\<close>, which is not among the sources. \<open>DIV_ROUND_UP\<close> is the round-up
  division \<open>(A + B - 1) / B\<close>, computed in unsigned 32-bit arithmetic, and \<open>MIN2\<close> is
  the smaller of its two arguments.
\<close>

definition DIV_ROUND_UP :: "nat \<Rightarrow> nat \<Rightarrow> nat" where
  "DIV_ROUND_UP a b = u32 (a + b - 1) div b"

definition MIN2 :: "nat \<Rightarrow> nat \<Rightarrow> nat" where
  "MIN2 a b = (if a < b then a else b)"

text \<open>
  The part of \<open>struct util_format_description\<close> that the code reads: \<open>desc->block\<close>.
  The lookup \<open>util_format_description(format)\<close> is external, so the public entry points
  take the description itself. Every description of the format table has a block height of
  at least 1; a block height of 0 would make the division in \<open>DIV_ROUND_UP\<close> trap.
\<close>

record util_format_block =
  block_width :: nat
  block_height :: nat
  block_bits :: nat

section \<open>The interleave tables\<close>

definition bit_duplication :: "nat list" where
  "bit_duplication =
     [0, 3, 12, 15, 48, 51, 60, 63, 192, 195, 204, 207, 240, 243, 252, 255]"

definition space_4 :: "nat list" where
  "space_4 = [0, 1, 4, 5, 16, 17, 20, 21, 64, 65, 68, 69, 80, 81, 84, 85]"

definition TILE_WIDTH :: nat where
  "TILE_WIDTH = 16"

definition TILE_HEIGHT :: nat where
  "TILE_HEIGHT = 16"

definition PIXELS_PER_TILE :: nat where
  "PIXELS_PER_TILE = TILE_WIDTH * TILE_HEIGHT"

section \<open>The aligned fast path: \<open>TILED_STORE_TYPE\<close>\<close>

text \<open>
  The innermost loop body \<open>*((pixel_t *) (dest + index)) = *(source++)\<close> for the pixel
  \<open>i\<close> of a tile row; the state is the source pointer and the heap.
\<close>

definition store_tile_pixel ::
  "pixel_t \<Rightarrow> nat \<Rightarrow> unsigned \<Rightarrow> pointer \<Rightarrow> nat \<Rightarrow> pointer \<times> heap \<Rightarrow> pointer \<times> heap" where
  "store_tile_pixel t shift expanded_y dest i =
     (\<lambda>(source, m).
        let index = expanded_y XOR push_bit shift (space_4 ! i)
        in (source + sizeof t, assign_pixel t (dest + index) source m))"

text \<open>
  The loop \<open>for (; source < source_end; dest += (PIXELS_PER_TILE << shift))\<close> over the
  tiles of one row, each iteration running the 16-pixel inner loop.
\<close>

function store_tiles ::
  "pixel_t \<Rightarrow> nat \<Rightarrow> unsigned \<Rightarrow> pointer \<Rightarrow> pointer \<times> pointer \<times> heap \<Rightarrow> heap" where
  "store_tiles t shift expanded_y source_end (source, dest, m) =
     (if source < source_end then
        let r = for_loop 0 16 (store_tile_pixel t shift expanded_y dest) (source, m)
        in store_tiles t shift expanded_y source_end
             (fst r, dest + push_bit shift PIXELS_PER_TILE, snd r)
      else m)"
  by pat_completeness auto
termination
proof (relation "measure (\<lambda>(t, shift, ey, source_end, source, dest, m). source_end - source)")
  show "wf (measure (\<lambda>(t, shift, ey, source_end, source, dest, m). source_end - source))"
    by simp
next
  fix t :: pixel_t and shift expanded_y source_end source dest :: nat and m :: heap
    and r :: "nat \<times> heap"
  assume lt: "source < source_end"
    and r: "r = for_loop 0 16 (store_tile_pixel t shift expanded_y dest) (source, m)"
  have "fst r = source + 16 * sizeof t"
    unfolding r by (simp add: for_loop.simps store_tile_pixel_def)
  moreover have "0 < sizeof t"
    by (cases t) simp_all
  ultimately show "((t, shift, expanded_y, source_end, fst r, dest + push_bit shift PIXELS_PER_TILE, snd r),
              (t, shift, expanded_y, source_end, source, dest, m))
             \<in> measure (\<lambda>(t, shift, ey, source_end, source, dest, m). source_end - source)"
    using lt by simp
qed

declare store_tiles.simps [simp del]

text \<open>
  \<open>TILED_STORE_TYPE(pixel_t, shift)\<close>. The parameters \<open>sx\<close>, \<open>sy\<close>, \<open>w\<close> and \<open>h\<close> are
  \<open>uint16_t\<close>: the arguments are converted on entry. \<open>block_y\<close> is \<open>uint16_t\<close> as well.
\<close>

definition TILED_STORE_TYPE ::
  "pixel_t \<Rightarrow> nat \<Rightarrow> pointer \<Rightarrow> pointer \<Rightarrow> unsigned \<Rightarrow> unsigned \<Rightarrow> unsigned \<Rightarrow> unsigned \<Rightarrow> unsigned \<Rightarrow> unsigned \<Rightarrow> heap \<Rightarrow> heap" where
  "TILED_STORE_TYPE t shift dst src sx0 sy0 w0 h0 dst_stride src_stride m =
     (let sx = u16 sx0; sy = u16 sy0; w = u16 w0; h = u16 h0;
          dest_start = dst + drop_bit 4 sx * PIXELS_PER_TILE * sizeof t
      in for_loop 0 h
           (\<lambda>src_y m.
              let y = sy + src_y;
                  block_y = u16 (y AND not32 15);
                  dest = dest_start + u32 (block_y * dst_stride);
                  source = src + u32 (src_y * src_stride);
                  source_end = source + w * sizeof t;
                  expanded_y = push_bit shift (bit_duplication ! (y AND 15))
              in store_tiles t shift expanded_y source_end (source, dest, m))
           m)"

definition panfrost_store_tiled_image_uint8_t ::
  "pointer \<Rightarrow> pointer \<Rightarrow> unsigned \<Rightarrow> unsigned \<Rightarrow> unsigned \<Rightarrow> unsigned \<Rightarrow> unsigned \<Rightarrow> unsigned \<Rightarrow> heap \<Rightarrow> heap" where
  "panfrost_store_tiled_image_uint8_t = TILED_STORE_TYPE uint8_t 0"

definition panfrost_store_tiled_image_uint16_t ::
  "pointer \<Rightarrow> pointer \<Rightarrow> unsigned \<Rightarrow> unsigned \<Rightarrow> unsigned \<Rightarrow> unsigned \<Rightarrow> unsigned \<Rightarrow> unsigned \<Rightarrow> heap \<Rightarrow> heap" where
  "panfrost_store_tiled_image_uint16_t = TILED_STORE_TYPE uint16_t 1"

definition panfrost_store_tiled_image_uint32_t ::
  "pointer \<Rightarrow> pointer \<Rightarrow> unsigned \<Rightarrow> unsigned \<Rightarrow> unsigned \<Rightarrow> unsigned \<Rightarrow> unsigned \<Rightarrow> unsigned \<Rightarrow> heap \<Rightarrow> heap" where
  "panfrost_store_tiled_image_uint32_t = TILED_STORE_TYPE uint32_t 2"

definition panfrost_store_tiled_image_uint64_t ::
  "pointer \<Rightarrow> pointer \<Rightarrow> unsigned \<Rightarrow> unsigned \<Rightarrow> unsigned \<Rightarrow> unsigned \<Rightarrow> unsigned \<Rightarrow> unsigned \<Rightarrow> heap \<Rightarrow> heap" where
  "panfrost_store_tiled_image_uint64_t = TILED_STORE_TYPE uint64_t 3"

definition panfrost_store_tiled_image_pan_uint128_t ::
  "pointer \<Rightarrow> pointer \<Rightarrow> unsigned \<Rightarrow> unsigned \<Rightarrow> unsigned \<Rightarrow> unsigned \<Rightarrow> unsigned \<Rightarrow> unsigned \<Rightarrow> heap \<Rightarrow> heap" where
  "panfrost_store_tiled_image_pan_uint128_t = TILED_STORE_TYPE pan_uint128_t 4"

section \<open>The generic path: \<open>TILED_UNALIGNED_TYPE\<close>\<close>

text \<open>
  \<open>TILED_UNALIGNED_TYPE(pixel_t, is_store, tile_shift)\<close>, expanded inside
  \<open>panfrost_access_tiled_image_generic\<close>, whose locals it uses. The counters \<open>y\<close> and
  \<open>x\<close> are \<open>int\<close>: \<open>y & ~mask\<close> and \<open>x & mask\<close> act on their bit patterns, and the
  arithmetic shift \<open>x >> tile_shift\<close> differs from the logical one only in the top
  \<open>tile_shift\<close> bits, which the multiplication by \<open>1 << (tile_shift * 2)\<close> moves out of
  the 32-bit result.
\<close>

definition TILED_UNALIGNED_TYPE ::
  "pixel_t \<Rightarrow> bool \<Rightarrow> nat \<Rightarrow> pointer \<Rightarrow> pointer \<Rightarrow> unsigned \<Rightarrow> unsigned \<Rightarrow> unsigned \<Rightarrow> unsigned \<Rightarrow> unsigned \<Rightarrow> unsigned \<Rightarrow> heap \<Rightarrow> heap" where
  "TILED_UNALIGNED_TYPE t is_store tile_shift dst src sx sy w h dst_stride src_stride m =
     (let mask = push_bit tile_shift 1 - 1
      in for_loop 0 h
           (\<lambda>src_y m.
              let y = u32 (sy + src_y);
                  block_y = y AND not32 mask;
                  block_start_s = u32 (block_y * dst_stride);
                  source_start = u32 (src_y * src_stride);
                  expanded_y = bit_duplication ! (y AND mask)
              in for_loop 0 w
                   (\<lambda>src_x m.
                      let x = u32 (sx + src_x);
                          block_x_s = u32 (drop_bit tile_shift x * push_bit (tile_shift * 2) 1);
                          index = expanded_y XOR space_4 ! (x AND mask);
                          source = src + source_start + sizeof t * src_x;
                          dest = dst + block_start_s + sizeof t * u32 (block_x_s + index);
                          outp = (if is_store then dest else source);
                          inp = (if is_store then source else dest)
                      in assign_pixel t outp inp m)
                   m)
           m)"

definition TILED_UNALIGNED_TYPES ::
  "unsigned \<Rightarrow> bool \<Rightarrow> nat \<Rightarrow> pointer \<Rightarrow> pointer \<Rightarrow> unsigned \<Rightarrow> unsigned \<Rightarrow> unsigned \<Rightarrow> unsigned \<Rightarrow> unsigned \<Rightarrow> unsigned \<Rightarrow> heap \<Rightarrow> heap" where
  "TILED_UNALIGNED_TYPES bpp store shift dst src sx sy w h dst_stride src_stride m =
     (if bpp = 8 then
        TILED_UNALIGNED_TYPE uint8_t store shift dst src sx sy w h dst_stride src_stride m
      else if bpp = 16 then
        TILED_UNALIGNED_TYPE uint16_t store shift dst src sx sy w h dst_stride src_stride m
      else if bpp = 32 then
        TILED_UNALIGNED_TYPE uint32_t store shift dst src sx sy w h dst_stride src_stride m
      else if bpp = 64 then
        TILED_UNALIGNED_TYPE uint64_t store shift dst src sx sy w h dst_stride src_stride m
      else if bpp = 128 then
        TILED_UNALIGNED_TYPE pan_uint128_t store shift dst src sx sy w h dst_stride src_stride m
      else m)"

definition panfrost_access_tiled_image_generic ::
  "pointer \<Rightarrow> pointer \<Rightarrow> unsigned \<Rightarrow> unsigned \<Rightarrow> unsigned \<Rightarrow> unsigned \<Rightarrow> unsigned \<Rightarrow> unsigned \<Rightarrow> util_format_block \<Rightarrow> bool \<Rightarrow> heap \<Rightarrow> heap" where
  "panfrost_access_tiled_image_generic dst src sx sy w h dst_stride src_stride desc is_store m =
     (let bpp = block_bits desc
      in if block_width desc > 1 then
           let w' = DIV_ROUND_UP w (block_width desc);
               h' = DIV_ROUND_UP h (block_height desc)
           in if is_store then
                TILED_UNALIGNED_TYPES bpp True 2 dst src sx sy w' h' dst_stride src_stride m
              else
                TILED_UNALIGNED_TYPES bpp False 2 dst src sx sy w' h' dst_stride src_stride m
         else
           if is_store then
             TILED_UNALIGNED_TYPES bpp True 4 dst src sx sy w h dst_stride src_stride m
           else
             TILED_UNALIGNED_TYPES bpp False 4 dst src sx sy w h dst_stride src_stride m)"

section \<open>The public entry points\<close>

text \<open>The macro \<open>OFFSET(src, _x, _y)\<close>, with the locals it refers to as parameters.\<close>

definition OFFSET :: "unsigned \<Rightarrow> unsigned \<Rightarrow> unsigned \<Rightarrow> unsigned \<Rightarrow> pointer \<Rightarrow> unsigned \<Rightarrow> unsigned \<Rightarrow> pointer" where
  "OFFSET orig_x orig_y src_stride bpp src x y =
     src + u32 (sub32 y orig_y * src_stride) + u32 (sub32 x orig_x * (bpp div 8))"

text \<open>The dispatch on \<open>bpp\<close> that ends \<open>panfrost_store_tiled_image\<close>.\<close>

definition store_interior ::
  "unsigned \<Rightarrow> unsigned \<Rightarrow> unsigned \<Rightarrow> pointer \<Rightarrow> pointer \<Rightarrow> unsigned \<Rightarrow> unsigned \<Rightarrow> unsigned \<Rightarrow> unsigned \<Rightarrow> unsigned \<Rightarrow> unsigned \<Rightarrow> heap \<Rightarrow> heap" where
  "store_interior bpp orig_x orig_y dst src x y w h dst_stride src_stride m =
     (let p = OFFSET orig_x orig_y src_stride bpp src x y
      in if bpp = 8 then
           panfrost_store_tiled_image_uint8_t dst p x y w h dst_stride src_stride m
         else if bpp = 16 then
           panfrost_store_tiled_image_uint16_t dst p x y w h dst_stride src_stride m
         else if bpp = 32 then
           panfrost_store_tiled_image_uint32_t dst p x y w h dst_stride src_stride m
         else if bpp = 64 then
           panfrost_store_tiled_image_uint64_t dst p x y w h dst_stride src_stride m
         else if bpp = 128 then
           panfrost_store_tiled_image_pan_uint128_t dst p x y w h dst_stride src_stride m
         else m)"

text \<open>The right portion, followed by the interior.\<close>

definition store_right ::
  "util_format_block \<Rightarrow> unsigned \<Rightarrow> unsigned \<Rightarrow> unsigned \<Rightarrow> pointer \<Rightarrow> pointer \<Rightarrow> 
     unsigned \<Rightarrow> unsigned \<Rightarrow> unsigned \<Rightarrow> unsigned \<Rightarrow> unsigned \<Rightarrow> unsigned \<Rightarrow> heap \<Rightarrow> heap" where
  "store_right desc last_full_tile_x orig_x orig_y dst src x y w h dst_stride src_stride m =
     (let bpp = block_bits desc
      in if last_full_tile_x \<noteq> u32 (x + w) then
           let dist = sub32 (u32 (x + w)) last_full_tile_x;
               m' = panfrost_access_tiled_image_generic dst
                      (OFFSET orig_x orig_y src_stride bpp src last_full_tile_x y)
                      last_full_tile_x y dist h dst_stride src_stride desc True m
           in store_interior bpp orig_x orig_y dst src x y (sub32 w dist) h
                dst_stride src_stride m'
         else
           store_interior bpp orig_x orig_y dst src x y w h dst_stride src_stride m)"

text \<open>The left portion, followed by the rest.\<close>

definition store_left ::
  "util_format_block \<Rightarrow> unsigned \<Rightarrow> unsigned \<Rightarrow> unsigned \<Rightarrow> unsigned \<Rightarrow> pointer \<Rightarrow> pointer \<Rightarrow> 
     unsigned \<Rightarrow> unsigned \<Rightarrow> unsigned \<Rightarrow> unsigned \<Rightarrow> unsigned \<Rightarrow> unsigned \<Rightarrow> heap \<Rightarrow> heap" where
  "store_left desc first_full_tile_x last_full_tile_x orig_x orig_y dst src x y w h
     dst_stride src_stride m =
     (let bpp = block_bits desc
      in if first_full_tile_x \<noteq> x then
           let dist = MIN2 (sub32 first_full_tile_x x) w;
               m' = panfrost_access_tiled_image_generic dst
                      (OFFSET orig_x orig_y src_stride bpp src x y)
                      x y dist h dst_stride src_stride desc True m
           in if dist = w then m'
              else store_right desc last_full_tile_x orig_x orig_y dst src
                     (u32 (x + dist)) y (sub32 w dist) h dst_stride src_stride m'
         else
           store_right desc last_full_tile_x orig_x orig_y dst src x y w h
             dst_stride src_stride m)"

text \<open>The bottom portion, followed by the rest.\<close>

definition store_bottom ::
  "util_format_block \<Rightarrow> unsigned \<Rightarrow> unsigned \<Rightarrow> unsigned \<Rightarrow> unsigned \<Rightarrow> unsigned \<Rightarrow> pointer \<Rightarrow> pointer \<Rightarrow> 
     unsigned \<Rightarrow> unsigned \<Rightarrow> unsigned \<Rightarrow> unsigned \<Rightarrow> unsigned \<Rightarrow> unsigned \<Rightarrow> heap \<Rightarrow> heap" where
  "store_bottom desc first_full_tile_x last_full_tile_x last_full_tile_y orig_x orig_y
     dst src x y w h dst_stride src_stride m =
     (let bpp = block_bits desc
      in if last_full_tile_y \<noteq> u32 (y + h) then
           let dist = sub32 (u32 (y + h)) last_full_tile_y;
               m' = panfrost_access_tiled_image_generic dst
                      (OFFSET orig_x orig_y src_stride bpp src x last_full_tile_y)
                      x last_full_tile_y w dist dst_stride src_stride desc True m
           in store_left desc first_full_tile_x last_full_tile_x orig_x orig_y dst src
                x y w (sub32 h dist) dst_stride src_stride m'
         else
           store_left desc first_full_tile_x last_full_tile_x orig_x orig_y dst src
             x y w h dst_stride src_stride m)"

definition panfrost_store_tiled_image ::
  "pointer \<Rightarrow> pointer \<Rightarrow> unsigned \<Rightarrow> unsigned \<Rightarrow> unsigned \<Rightarrow> unsigned \<Rightarrow> unsigned \<Rightarrow> unsigned \<Rightarrow> util_format_block \<Rightarrow> heap \<Rightarrow> heap" where
  "panfrost_store_tiled_image dst src x y w h dst_stride src_stride desc m =
     (if block_width desc > 1 then
        panfrost_access_tiled_image_generic dst src x y w h dst_stride src_stride desc True m
      else
        let bpp = block_bits desc;
            first_full_tile_x = u32 (DIV_ROUND_UP x TILE_WIDTH * TILE_WIDTH);
            first_full_tile_y = u32 (DIV_ROUND_UP y TILE_HEIGHT * TILE_HEIGHT);
            last_full_tile_x = u32 (u32 (x + w) div TILE_WIDTH * TILE_WIDTH);
            last_full_tile_y = u32 (u32 (y + h) div TILE_HEIGHT * TILE_HEIGHT);
            orig_x = x;
            orig_y = y
        in if first_full_tile_y \<noteq> y then
             let dist = MIN2 (sub32 first_full_tile_y y) h;
                 m' = panfrost_access_tiled_image_generic dst
                        (OFFSET orig_x orig_y src_stride bpp src x y)
                        x y w dist dst_stride src_stride desc True m
             in if dist = h then m'
                else store_bottom desc first_full_tile_x last_full_tile_x last_full_tile_y
                       orig_x orig_y dst src x (u32 (y + dist)) w (sub32 h dist)
                       dst_stride src_stride m'
           else
             store_bottom desc first_full_tile_x last_full_tile_x last_full_tile_y
               orig_x orig_y dst src x y w h dst_stride src_stride m)"

text \<open>
  \<open>panfrost_load_tiled_image(dst, src, ...)\<close>: here \<open>src\<close> is the tiled buffer and
  \<open>dst\<close> the linear one.
\<close>

definition panfrost_load_tiled_image ::
  "pointer \<Rightarrow> pointer \<Rightarrow> unsigned \<Rightarrow> unsigned \<Rightarrow> unsigned \<Rightarrow> unsigned \<Rightarrow> unsigned \<Rightarrow> unsigned \<Rightarrow> util_format_block \<Rightarrow> heap \<Rightarrow> heap" where
  "panfrost_load_tiled_image dst src x y w h dst_stride src_stride desc m =
     panfrost_access_tiled_image_generic src dst x y w h src_stride dst_stride desc False m"

section \<open>The tiled layout\<close>

text \<open>
  The interleave key of the element \<open>(x, y)\<close> at a tile size of \<open>2 ^ ts\<close> in each axis:
  the expansion of the low bits of \<open>y\<close>, combined with the spaced low bits of \<open>x\<close>.
\<close>

definition interleave :: "nat \<Rightarrow> nat \<Rightarrow> nat \<Rightarrow> nat" where
  "interleave ts x y = bit_duplication ! (y mod 2 ^ ts) XOR space_4 ! (x mod 2 ^ ts)"

text \<open>
  The address of the element \<open>(x, y)\<close> of a tiled image at \<open>dst\<close>, and of the element in
  row \<open>i\<close> and column \<open>j\<close> of a linear image at \<open>src\<close>, in exact arithmetic: tiles
  follow each other along a row of tiles, and a row of tiles takes \<open>2 ^ ts\<close> strides.
\<close>

definition tiled_addr :: "pixel_t \<Rightarrow> nat \<Rightarrow> pointer \<Rightarrow> unsigned \<Rightarrow> nat \<Rightarrow> nat \<Rightarrow> pointer" where
  "tiled_addr t ts dst stride x y =
     dst + y div 2 ^ ts * 2 ^ ts * stride
         + sizeof t * (x div 2 ^ ts * 2 ^ (2 * ts) + interleave ts x y)"

definition linear_addr :: "pixel_t \<Rightarrow> pointer \<Rightarrow> unsigned \<Rightarrow> nat \<Rightarrow> nat \<Rightarrow> pointer" where
  "linear_addr t src stride i j = src + i * stride + sizeof t * j"

text \<open>
  The number of tiles that cover \<open>n\<close> elements along one axis, the bytes of a tiled image
  of \<open>H\<close> rows, and the bytes from the first to the last byte of a linear rectangle.
\<close>

definition tiles :: "nat \<Rightarrow> nat \<Rightarrow> nat" where
  "tiles ts n = (n + 2 ^ ts - 1) div 2 ^ ts"

definition tiled_size :: "nat \<Rightarrow> unsigned \<Rightarrow> nat \<Rightarrow> nat" where
  "tiled_size ts stride H = 2 ^ ts * stride * tiles ts H"

definition linear_extent :: "pixel_t \<Rightarrow> unsigned \<Rightarrow> nat \<Rightarrow> nat \<Rightarrow> nat" where
  "linear_extent t stride w h = (h - 1) * stride + w * sizeof t"

text \<open>
  Reading the coordinates back from an element offset: the odd bits are those of \<open>ly\<close>,
  and the even bits, once the odd ones are cancelled, those of \<open>lx\<close>.
\<close>

definition unspace :: "nat \<Rightarrow> nat" where
  "unspace v = (v AND 1) + 2 * (drop_bit 2 v AND 1) + 4 * (drop_bit 4 v AND 1) + 8 * (drop_bit 6 v AND 1)"

section \<open>Runs of element copies\<close>

text \<open>
  Every routine amounts to a list of element copies \<open>(outp, inp)\<close>, run in order.
\<close>

definition exec :: "pixel_t \<Rightarrow> (pointer \<times> pointer) list \<Rightarrow> heap \<Rightarrow> heap" where
  "exec t ops m = fold (\<lambda>(outp, inp). assign_pixel t outp inp) ops m"

text \<open>
  The copies of a run are aligned when every pointer of every copy is aligned for the element
  type; \<open>copies\<close> is the memory that a run of aligned copies leaves.
\<close>

definition aligned_ops :: "pixel_t \<Rightarrow> (pointer \<times> pointer) set \<Rightarrow> bool" where
  "aligned_ops t ops \<longleftrightarrow> (\<forall>(outp, inp) \<in> ops. alignof t dvd outp \<and> alignof t dvd inp)"

definition copy_pixel :: "pixel_t \<Rightarrow> pointer \<Rightarrow> pointer \<Rightarrow> memory \<Rightarrow> memory" where
  "copy_pixel t outp inp m =
     (\<lambda>a. if outp \<le> a \<and> a < outp + sizeof t then m (inp + (a - outp)) else m a)"

definition copies :: "pixel_t \<Rightarrow> (pointer \<times> pointer) list \<Rightarrow> memory \<Rightarrow> memory" where
  "copies t ops m = fold (\<lambda>(outp, inp). copy_pixel t outp inp) ops m"

text \<open>The copy between a tiled and a linear address, in the direction of the flag.\<close>

definition copy_op :: "bool \<Rightarrow> pointer \<Rightarrow> pointer \<Rightarrow> pointer \<times> pointer" where
  "copy_op is_store tiled linear = (if is_store then (tiled, linear) else (linear, tiled))"

text \<open>
  The addresses as the generic path computes them, with the 32-bit products \<open>block_y *
  dst_stride\<close> and \<open>src_y * src_stride\<close> wrapping around, and the copies of the generic
  path over a rectangle in its order: row by row, left to right.
\<close>

definition wtiled :: "pixel_t \<Rightarrow> nat \<Rightarrow> pointer \<Rightarrow> unsigned \<Rightarrow> nat \<Rightarrow> nat \<Rightarrow> pointer" where
  "wtiled t ts dst stride x y =
     dst + u32 (y div 2 ^ ts * 2 ^ ts * stride)
         + sizeof t * (x div 2 ^ ts * 2 ^ (2 * ts) + interleave ts x y)"

definition wlinear :: "pixel_t \<Rightarrow> pointer \<Rightarrow> unsigned \<Rightarrow> nat \<Rightarrow> nat \<Rightarrow> pointer" where
  "wlinear t src stride i j = src + u32 (i * stride) + sizeof t * j"

definition unaligned_ops ::
  "pixel_t \<Rightarrow> bool \<Rightarrow> nat \<Rightarrow> pointer \<Rightarrow> pointer \<Rightarrow> unsigned \<Rightarrow> unsigned \<Rightarrow> unsigned \<Rightarrow> unsigned
     \<Rightarrow> unsigned \<Rightarrow> unsigned \<Rightarrow> (pointer \<times> pointer) list" where
  "unaligned_ops t is_store ts dst src sx sy w h dst_stride src_stride =
     map (\<lambda>(i, j). copy_op is_store (wtiled t ts dst dst_stride (sx + j) (sy + i))
                                     (wlinear t src src_stride i j))
       (List.product [0..<h] [0..<w])"

text \<open>The copies of the fast path, row by row and tile by tile, as it computes them.\<close>

definition fast_ops ::
  "pixel_t \<Rightarrow> nat \<Rightarrow> pointer \<Rightarrow> pointer \<Rightarrow> unsigned \<Rightarrow> unsigned \<Rightarrow> unsigned \<Rightarrow> unsigned
     \<Rightarrow> unsigned \<Rightarrow> unsigned \<Rightarrow> (pointer \<times> pointer) list" where
  "fast_ops t shift dst src sx0 sy0 w0 h0 dst_stride src_stride =
     concat (map (\<lambda>i. map (\<lambda>j.
         (dst + drop_bit 4 (u16 sx0) * PIXELS_PER_TILE * sizeof t
              + u32 (u16 ((u16 sy0 + i) AND not32 15) * dst_stride)
              + j div 16 * push_bit shift PIXELS_PER_TILE
              + (push_bit shift (bit_duplication ! ((u16 sy0 + i) AND 15))
                   XOR push_bit shift (space_4 ! (j mod 16))),
          src + u32 (i * src_stride) + j * sizeof t)) [0..<u16 w0]) [0..<u16 h0])"

text \<open>
  The copy of the element \<open>(px, py)\<close> between a tiled image and a linear image whose first
  element is \<open>(ox, oy)\<close>, in exact arithmetic.
\<close>

definition pixel_op ::
  "pixel_t \<Rightarrow> bool \<Rightarrow> nat \<Rightarrow> pointer \<Rightarrow> unsigned \<Rightarrow> pointer \<Rightarrow> unsigned \<Rightarrow> nat \<Rightarrow> nat
     \<Rightarrow> nat \<times> nat \<Rightarrow> pointer \<times> pointer" where
  "pixel_op t is_store ts tiled tiled_stride linear linear_stride ox oy =
     (\<lambda>(px, py). copy_op is_store (tiled_addr t ts tiled tiled_stride px py)
                                  (linear_addr t linear linear_stride (py - oy) (px - ox)))"

text \<open>
  A set of copies is coherent when no copy reads a byte that a copy writes, and two copies
  that write the same byte write it from the same source byte: the result of running them
  does not depend on their order.
\<close>

definition coherent :: "pixel_t \<Rightarrow> (pointer \<times> pointer) set \<Rightarrow> bool" where
  "coherent t ops \<longleftrightarrow>
     (\<forall>(d, s) \<in> ops. \<forall>(d', s') \<in> ops. \<forall>k < sizeof t. \<forall>k' < sizeof t.
        s + k \<noteq> d' + k' \<and> (d + k = d' + k' \<longrightarrow> s + k = s' + k'))"

section \<open>The portions of a store\<close>

text \<open>
  The calls that \<open>panfrost_store_tiled_image\<close> makes for an uncompressed format, in the
  order it makes them: each is a portion of the rectangle, with the \<open>x\<close>, \<open>y\<close>, \<open>w\<close> and
  \<open>h\<close> it is called with. The definitions follow the control flow of \<open>store_right\<close>,
  \<open>store_left\<close>, \<open>store_bottom\<close> and \<open>panfrost_store_tiled_image\<close>.
\<close>

datatype portion = Top | Bottom | Left | Right | Interior

type_synonym region = "portion \<times> unsigned \<times> unsigned \<times> unsigned \<times> unsigned"

definition regions_right :: "unsigned \<Rightarrow> unsigned \<Rightarrow> unsigned \<Rightarrow> unsigned \<Rightarrow> unsigned \<Rightarrow> region list" where
  "regions_right last_full_tile_x x y w h =
     (if last_full_tile_x \<noteq> u32 (x + w) then
        let dist = sub32 (u32 (x + w)) last_full_tile_x
        in [(Right, last_full_tile_x, y, dist, h), (Interior, x, y, sub32 w dist, h)]
      else [(Interior, x, y, w, h)])"

definition regions_left ::
  "unsigned \<Rightarrow> unsigned \<Rightarrow> unsigned \<Rightarrow> unsigned \<Rightarrow> unsigned \<Rightarrow> unsigned \<Rightarrow> region list" where
  "regions_left first_full_tile_x last_full_tile_x x y w h =
     (if first_full_tile_x \<noteq> x then
        let dist = MIN2 (sub32 first_full_tile_x x) w
        in (Left, x, y, dist, h) #
           (if dist = w then []
            else regions_right last_full_tile_x (u32 (x + dist)) y (sub32 w dist) h)
      else regions_right last_full_tile_x x y w h)"

definition regions_bottom ::
  "unsigned \<Rightarrow> unsigned \<Rightarrow> unsigned \<Rightarrow> unsigned \<Rightarrow> unsigned \<Rightarrow> unsigned \<Rightarrow> unsigned
     \<Rightarrow> region list" where
  "regions_bottom first_full_tile_x last_full_tile_x last_full_tile_y x y w h =
     (if last_full_tile_y \<noteq> u32 (y + h) then
        let dist = sub32 (u32 (y + h)) last_full_tile_y
        in (Bottom, x, last_full_tile_y, w, dist) #
           regions_left first_full_tile_x last_full_tile_x x y w (sub32 h dist)
      else regions_left first_full_tile_x last_full_tile_x x y w h)"

definition store_regions :: "unsigned \<Rightarrow> unsigned \<Rightarrow> unsigned \<Rightarrow> unsigned \<Rightarrow> region list" where
  "store_regions x y w h =
     (let first_full_tile_x = u32 (DIV_ROUND_UP x TILE_WIDTH * TILE_WIDTH);
          first_full_tile_y = u32 (DIV_ROUND_UP y TILE_HEIGHT * TILE_HEIGHT);
          last_full_tile_x = u32 (u32 (x + w) div TILE_WIDTH * TILE_WIDTH);
          last_full_tile_y = u32 (u32 (y + h) div TILE_HEIGHT * TILE_HEIGHT)
      in if first_full_tile_y \<noteq> y then
           let dist = MIN2 (sub32 first_full_tile_y y) h
           in (Top, x, y, w, dist) #
              (if dist = h then []
               else regions_bottom first_full_tile_x last_full_tile_x last_full_tile_y
                      x (u32 (y + dist)) w (sub32 h dist))
         else regions_bottom first_full_tile_x last_full_tile_x last_full_tile_y x y w h)"

text \<open>The call made for a portion: the fast path for the interior, the generic path otherwise.\<close>

definition run_region ::
  "util_format_block \<Rightarrow> unsigned \<Rightarrow> unsigned \<Rightarrow> pointer \<Rightarrow> pointer \<Rightarrow> unsigned \<Rightarrow> unsigned
     \<Rightarrow> region \<Rightarrow> heap \<Rightarrow> heap" where
  "run_region desc orig_x orig_y dst src dst_stride src_stride =
     (\<lambda>(portion, x, y, w, h) m.
        if portion = Interior then
          store_interior (block_bits desc) orig_x orig_y dst src x y w h dst_stride src_stride m
        else
          panfrost_access_tiled_image_generic dst
            (OFFSET orig_x orig_y src_stride (block_bits desc) src x y)
            x y w h dst_stride src_stride desc True m)"

text \<open>The elements of a portion, and pairwise disjointness of a list of portions.\<close>

fun rect_set :: "region \<Rightarrow> (nat \<times> nat) set" where
  "rect_set (portion, x, y, w, h) = {x..<x + w} \<times> {y..<y + h}"

fun disjoint_regions :: "region list \<Rightarrow> bool" where
  "disjoint_regions [] = True"
| "disjoint_regions (r # rs) = ((\<forall>r' \<in> set rs. rect_set r \<inter> rect_set r' = {}) \<and> disjoint_regions rs)"

text \<open>
  A portion lies within a rectangle; the interior portion is aligned to tiles; and a list of
  portions splits a rectangle when the portions are pairwise disjoint, lie within it, cover
  it, and the interior one is aligned.
\<close>

fun within :: "unsigned \<Rightarrow> unsigned \<Rightarrow> unsigned \<Rightarrow> unsigned \<Rightarrow> region \<Rightarrow> bool" where
  "within x y w h (k, x', y', w', h') \<longleftrightarrow>
     x \<le> x' \<and> x' + w' \<le> x + w \<and> y \<le> y' \<and> y' + h' \<le> y + h"

fun interior_aligned :: "region \<Rightarrow> bool" where
  "interior_aligned (k, x', y', w', h') \<longleftrightarrow>
     (k = Interior \<longrightarrow> 16 dvd x' \<and> 16 dvd y' \<and> 16 dvd w' \<and> 16 dvd h')"

definition splits :: "region list \<Rightarrow> unsigned \<Rightarrow> unsigned \<Rightarrow> unsigned \<Rightarrow> unsigned \<Rightarrow> bool" where
  "splits rs x y w h \<longleftrightarrow>
     (\<Union>r \<in> set rs. rect_set r) = {x..<x + w} \<times> {y..<y + h} \<and>
     disjoint_regions rs \<and>
     (\<forall>r \<in> set rs. within x y w h r \<and> interior_aligned r)"

text \<open>The elements of a portion in the order of the generic path.\<close>

fun region_pixels :: "region \<Rightarrow> (nat \<times> nat) list" where
  "region_pixels (portion, x, y, w, h) = map (\<lambda>(i, j). (x + j, y + i)) (List.product [0..<h] [0..<w])"

text \<open>The shift that \<open>TILED_STORE_TYPE\<close> is instantiated with for each element type.\<close>

fun shift_of :: "pixel_t \<Rightarrow> nat" where
  "shift_of uint8_t = 0"
| "shift_of uint16_t = 1"
| "shift_of uint32_t = 2"
| "shift_of uint64_t = 3"
| "shift_of pan_uint128_t = 4"

text \<open>
  The tile shift and the extent, in elements, that the generic path works with for a format:
  blocks on a grid of 4 by 4 for a compressed format, pixels on a grid of 16 by 16 otherwise.
\<close>

definition grid_shift :: "util_format_block \<Rightarrow> nat" where
  "grid_shift desc = (if 1 < block_width desc then 2 else 4)"

definition grid_w :: "util_format_block \<Rightarrow> unsigned \<Rightarrow> unsigned" where
  "grid_w desc w = (if 1 < block_width desc then DIV_ROUND_UP w (block_width desc) else w)"

definition grid_h :: "util_format_block \<Rightarrow> unsigned \<Rightarrow> unsigned" where
  "grid_h desc h = (if 1 < block_width desc then DIV_ROUND_UP h (block_height desc) else h)"

section \<open>Loops as folds\<close>

lemma for_loop_fold: "for_loop i n body s = fold body [i..<n] s"
proof (induction i n body s rule: for_loop.induct)
  case (1 i n body s)
  show ?case
  proof (cases "i < n")
    case True
    then show ?thesis
      using "1.IH" by (subst for_loop.simps) (simp add: upt_conv_Cons)
  next
    case False
    then show ?thesis
      by (subst for_loop.simps) simp
  qed
qed

lemma sizeof_pos: "0 < sizeof t"
  by (cases t) simp_all

section \<open>The interleave tables, bit by bit\<close>

lemma nibble_cases:
  "nib < 16 \<Longrightarrow> nib = 0 \<or> nib = 1 \<or> nib = 2 \<or> nib = 3 \<or> nib = 4 \<or> nib = 5 \<or> nib = 6 \<or> nib = 7 \<or>
     nib = 8 \<or> nib = 9 \<or> nib = 10 \<or> nib = 11 \<or> nib = 12 \<or> nib = 13 \<or> nib = 14 \<or> nib = (15::nat)"
  by arith

lemma octet_cases:
  "pos < 8 \<Longrightarrow> pos = 0 \<or> pos = 1 \<or> pos = 2 \<or> pos = 3 \<or> pos = 4 \<or> pos = 5 \<or> pos = 6 \<or> pos = (7::nat)"
  by arith

lemma bit_duplication_low: "n < 16 \<Longrightarrow> j < 8 \<Longrightarrow> bit (bit_duplication ! n) j \<longleftrightarrow> bit n (j div 2)"
  apply (drule nibble_cases)
  apply (drule octet_cases)
  apply (elim disjE; simp add: bit_duplication_def bit_Suc_0_iff)
  done

lemma space_4_low: "n < 16 \<Longrightarrow> j < 8 \<Longrightarrow> bit (space_4 ! n) j \<longleftrightarrow> even j \<and> bit n (j div 2)"
  apply (drule nibble_cases)
  apply (drule octet_cases)
  apply (elim disjE; simp add: space_4_def bit_Suc_0_iff)
  done

lemma bit_duplication_less: "n < 16 \<Longrightarrow> bit_duplication ! n < 256"
  by (drule nibble_cases) (elim disjE; simp add: bit_duplication_def)

lemma space_4_less: "n < 16 \<Longrightarrow> space_4 ! n < 128"
  by (drule nibble_cases) (elim disjE; simp add: space_4_def)

lemma bit_high: "(v::nat) < 2 ^ k \<Longrightarrow> k \<le> j \<Longrightarrow> \<not> bit v j"
proof -
  assume a: "v < 2 ^ k" "k \<le> j"
  have "(2::nat) ^ k \<le> 2 ^ j" using a(2) by (simp add: power_increasing)
  then have "v < 2 ^ j" using a(1) by (rule less_le_trans [rotated])
  then show ?thesis by (simp add: bit_iff_odd)
qed

text \<open>
  Claim C5. For every nibble \<open>n\<close> below 16, \<open>bit_duplication[n]\<close> is the 8-bit value
  whose bits \<open>2i\<close> and \<open>2i + 1\<close> are bit \<open>i\<close> of \<open>n\<close>, and \<open>space_4[n]\<close> is the 7-bit
  value whose bit \<open>2i\<close> is bit \<open>i\<close> of \<open>n\<close> and whose other bits are zero.
\<close>

theorem tables_bitwise:
  assumes "n < 16"
  shows "(\<forall>j. bit (bit_duplication ! n) j \<longleftrightarrow> j < 8 \<and> bit n (j div 2)) \<and>
         (\<forall>j. bit (space_4 ! n) j \<longleftrightarrow> j < 7 \<and> even j \<and> bit n (j div 2))"
proof (intro conjI allI)
  fix j
  show "bit (bit_duplication ! n) j \<longleftrightarrow> j < 8 \<and> bit n (j div 2)"
  proof (cases "j < 8")
    case True
    then show ?thesis using bit_duplication_low [OF assms True] by simp
  next
    case False
    then show ?thesis
      using bit_high [of "bit_duplication ! n" 8 j] bit_duplication_less [OF assms] by simp
  qed
  show "bit (space_4 ! n) j \<longleftrightarrow> j < 7 \<and> even j \<and> bit n (j div 2)"
  proof (cases "j < 7")
    case True
    then have "j < 8" by simp
    then show ?thesis using space_4_low [OF assms] True by simp
  next
    case False
    then show ?thesis
      using bit_high [of "space_4 ! n" 7 j] space_4_less [OF assms] by simp
  qed
qed

theorem tables_bitwise_witness:
  "(10::nat) < 16 \<and>
   (\<forall>j. bit (bit_duplication ! 10) j \<longleftrightarrow> j < 8 \<and> bit (10::nat) (j div 2)) \<and>
   (\<forall>j. bit (space_4 ! 10) j \<longleftrightarrow> j < 7 \<and> even j \<and> bit (10::nat) (j div 2))"
  using tables_bitwise [of 10] by simp

lemma decode_y: "lx < 16 \<Longrightarrow> ly < 16 \<Longrightarrow> unspace (drop_bit 1 (bit_duplication ! ly XOR space_4 ! lx)) = ly"
  apply (drule nibble_cases)
  apply (drule nibble_cases)
  apply (elim disjE; simp add: bit_duplication_def space_4_def unspace_def)
  done

lemma decode_x: "lx < 16 \<Longrightarrow> ly < 16 \<Longrightarrow> 
   unspace ((bit_duplication ! ly XOR space_4 ! lx) XOR drop_bit 1 (bit_duplication ! ly XOR space_4 ! lx)) = lx"
  apply (drule nibble_cases)
  apply (drule nibble_cases)
  apply (elim disjE; simp add: bit_duplication_def space_4_def unspace_def)
  done

lemma index_less: "lx < 16 \<Longrightarrow> ly < 16 \<Longrightarrow> bit_duplication ! ly XOR space_4 ! lx < 256"
  apply (drule nibble_cases)
  apply (drule nibble_cases)
  apply (elim disjE; simp add: bit_duplication_def space_4_def)
  done

lemma index_inj:
  assumes "lx < 16" "ly < 16" "lx' < 16" "ly' < 16"
    and "bit_duplication ! ly XOR space_4 ! lx = bit_duplication ! ly' XOR space_4 ! lx'"
  shows "lx = lx' \<and> ly = ly'"
  by (metis decode_x decode_y assms)

text \<open>
  Claim C10. The map from the local coordinates \<open>(lx, ly)\<close>, each below 16, to
  \<open>bit_duplication[ly] XOR space_4[lx]\<close> is a bijection onto the element offsets below
  256: no two pixels of a tile share a slot, and every slot is used.
\<close>

theorem interleave_bijection:
  "bij_betw (\<lambda>(lx, ly). bit_duplication ! ly XOR space_4 ! lx) ({0..<16} \<times> {0..<16}) {0..<256}"
proof -
  let ?f = "\<lambda>(lx, ly). bit_duplication ! ly XOR space_4 ! lx"
  let ?A = "{0..<16::nat} \<times> {0..<16::nat}"
  have inj: "inj_on ?f ?A"
    by (rule inj_onI) (auto dest: index_inj)
  have sub: "?f ` ?A \<subseteq> {0..<256}"
    by (auto simp: index_less)
  have "card (?f ` ?A) = card ?A"
    using inj by (rule card_image)
  also have "\<dots> = card {0..<256::nat}"
    by simp
  finally have "?f ` ?A = {0..<256}"
    using sub by (intro card_subset_eq) simp_all
  with inj show ?thesis
    by (simp add: bij_betw_def)
qed

lemma u32_id: "n < 2 ^ 32 \<Longrightarrow> u32 n = n"
  by (simp add: u32_def)

lemma and_low_mask: "x AND (2 ^ ts - Suc 0) = (x::nat) mod 2 ^ ts"
  using take_bit_eq_mask [of ts x] by (simp add: take_bit_eq_mod mask_eq_exp_minus_1)

lemma not32_low_mask:
  assumes "ts \<le> 32"
  shows "not32 (2 ^ ts - Suc 0) = push_bit ts (mask (32 - ts))"
proof -
  have "(2 ^ (32 - ts) - 1) * 2 ^ ts = (2::nat) ^ (32 - ts) * 2 ^ ts - 2 ^ ts"
    by (simp add: diff_mult_distrib)
  also have "\<dots> = 2 ^ 32 - 2 ^ ts"
    using assms by (simp flip: power_add)
  finally have "push_bit ts (mask (32 - ts)) = (2::nat) ^ 32 - 2 ^ ts"
    by (simp add: push_bit_eq_mult mask_eq_exp_minus_1)
  moreover have "not32 (2 ^ ts - Suc 0) = 2 ^ 32 - 2 ^ ts"
    by (simp add: not32_def)
  ultimately show ?thesis by simp
qed

lemma and_high_mask:
  assumes "y < 2 ^ 32" "ts \<le> 32"
  shows "y AND not32 (2 ^ ts - Suc 0) = y div 2 ^ ts * 2 ^ ts"
proof -
  have "y AND push_bit ts (mask (32 - ts)) = push_bit ts (drop_bit ts y)"
  proof (rule bit_eqI)
    fix n
    have "bit y n \<Longrightarrow> n < 32"
      using bit_high [OF assms(1), of n] by (cases "n < 32") auto
    then show "bit (y AND push_bit ts (mask (32 - ts))) n = bit (push_bit ts (drop_bit ts y)) n"
      using assms(2) by (auto simp: bit_and_iff bit_push_bit_iff bit_mask_iff bit_drop_bit_eq)
  qed
  then show ?thesis
    unfolding not32_low_mask [OF assms(2)] by (simp add: push_bit_eq_mult drop_bit_eq_div)
qed

lemma fold_product:
  "fold (\<lambda>x. fold (f x) ys) xs s = fold (\<lambda>(x, y). f x y) (List.product xs ys) s"
  by (induction xs arbitrary: s) (simp_all add: fold_map comp_def)

lemma exec_product:
  "exec t (map g (List.product xs ys)) m =
   fold (\<lambda>x. fold (\<lambda>y. case g (x, y) of (outp, inp) \<Rightarrow> assign_pixel t outp inp) ys) xs m"
  by (simp add: exec_def fold_map fold_product comp_def case_prod_unfold)

lemma exec_append: "exec t (xs @ ys) m = exec t ys (exec t xs m)"
  by (simp add: exec_def)

lemma interleave_less_4: "interleave 4 x y < 256"
  by (simp add: interleave_def index_less)

lemma index_less_small: "lx < 4 \<Longrightarrow> ly < 4 \<Longrightarrow> bit_duplication ! ly XOR space_4 ! lx < 16"
proof -
  assume "lx < 4" "ly < 4"
  then have "lx = 0 \<or> lx = 1 \<or> lx = 2 \<or> lx = 3" "ly = 0 \<or> ly = 1 \<or> ly = 2 \<or> ly = 3"
    by arith+
  then show ?thesis
    by (elim disjE; simp add: bit_duplication_def space_4_def)
qed

lemma interleave_less_2: "interleave 2 x y < 16"
  by (simp add: interleave_def index_less_small)

lemma interleave_less: "ts = 2 \<or> ts = 4 \<Longrightarrow> interleave ts x y < 2 ^ (2 * ts)"
  using interleave_less_2 [of x y] interleave_less_4 [of x y] by auto

lemma block_x_fits:
  assumes ts: "ts = 2 \<or> ts = 4" and x: "x < 2 ^ (32 - ts)"
  shows "x div 2 ^ ts * 2 ^ (2 * ts) + interleave ts x y < 2 ^ 32"
proof -
  have "(2::nat) ^ (32 - ts) = 2 ^ (32 - 2 * ts) * 2 ^ ts"
    using ts by (auto simp flip: power_add)
  then have "x div 2 ^ ts < 2 ^ (32 - 2 * ts)"
    using x by (simp add: less_mult_imp_div_less)
  then have "x div 2 ^ ts + 1 \<le> 2 ^ (32 - 2 * ts)"
    by simp
  then have "(x div 2 ^ ts + 1) * 2 ^ (2 * ts) \<le> 2 ^ (32 - 2 * ts) * (2::nat) ^ (2 * ts)"
    by (rule mult_le_mono1)
  also have "\<dots> = 2 ^ 32"
    using ts by (auto simp flip: power_add)
  finally show ?thesis
    using interleave_less [OF ts, of x y] by simp
qed

lemma unaligned_exec:
  assumes ts: "ts = 2 \<or> ts = 4"
    and x: "sx + w \<le> 2 ^ (32 - ts)"
    and y: "sy + h \<le> 2 ^ 32"
  shows "TILED_UNALIGNED_TYPE t is_store ts dst src sx sy w h dst_stride src_stride m =
         exec t (unaligned_ops t is_store ts dst src sx sy w h dst_stride src_stride) m"
proof -
  have ts32: "ts \<le> 32" using ts by auto
  have pix: "assign_pixel t
               (if is_store
                then dst + u32 ((u32 (sy + i) AND not32 (push_bit ts 1 - 1)) * dst_stride) +
                     sizeof t *
                     u32 (u32 (drop_bit ts (u32 (sx + j)) * push_bit (ts * 2) 1) +
                          (bit_duplication ! (u32 (sy + i) AND push_bit ts 1 - 1) XOR
                           space_4 ! (u32 (sx + j) AND push_bit ts 1 - 1)))
                else src + u32 (i * src_stride) + sizeof t * j)
               (if is_store
                then src + u32 (i * src_stride) + sizeof t * j
                else dst + u32 ((u32 (sy + i) AND not32 (push_bit ts 1 - 1)) * dst_stride) +
                     sizeof t *
                     u32 (u32 (drop_bit ts (u32 (sx + j)) * push_bit (ts * 2) 1) +
                          (bit_duplication ! (u32 (sy + i) AND push_bit ts 1 - 1) XOR
                           space_4 ! (u32 (sx + j) AND push_bit ts 1 - 1))))
               m' =
             (case copy_op is_store (wtiled t ts dst dst_stride (sx + j) (sy + i))
                     (wlinear t src src_stride i j)
              of (outp, inp) \<Rightarrow> assign_pixel t outp inp) m'"
    if "i < h" "j < w" for i j m'
  proof -
    have "(2::nat) ^ (32 - ts) \<le> 2 ^ 32"
      by (rule power_increasing) simp_all
    then have xj: "sx + j < 2 ^ (32 - ts)" "sx + j < 2 ^ 32" and yi: "sy + i < 2 ^ 32"
      using x y that by simp_all
    have bx: "(sx + j) div 2 ^ ts * 2 ^ (2 * ts) + interleave ts (sx + j) (sy + i) < 2 ^ 32"
      by (rule block_x_fits [OF ts xj(1)])
    then have bx': "(sx + j) div 2 ^ ts * 2 ^ (2 * ts) < 2 ^ 32"
      by simp
    show ?thesis
      using bx bx'
      by (simp add: u32_id [OF xj(2)] u32_id [OF yi] and_low_mask and_high_mask [OF yi ts32]
          drop_bit_eq_div push_bit_eq_mult copy_op_def wtiled_def wlinear_def interleave_def
          u32_id mult.commute [of ts 2])
  qed
  show ?thesis
    unfolding TILED_UNALIGNED_TYPE_def unaligned_ops_def exec_product for_loop_fold
    apply (simp only: Let_def)
    apply (rule fold_cong [OF refl refl])
    apply (rule ext)
    apply (rule fold_cong [OF refl refl])
    apply (rule ext)
    apply (simp only: prod.case)
    apply (rule pix; simp)
    done
qed


lemma fold_exec_concat: "fold (\<lambda>i. exec t (f i)) xs m = exec t (concat (map f xs)) m"
  by (induction xs arbitrary: m) (simp_all add: exec_def)

lemma tile_pixels_exec:
  "fold (store_tile_pixel t shift ey dest) [0..<n] (source, m) =
   (source + n * sizeof t,
    exec t (map (\<lambda>i. (dest + (ey XOR push_bit shift (space_4 ! i)), source + i * sizeof t)) [0..<n]) m)"
  by (induction n) (simp_all add: exec_def store_tile_pixel_def)

lemma store_tiles_exec:
  "store_tiles t shift ey (source + n * 16 * sizeof t) (source, dest, m) =
   exec t (map (\<lambda>j. (dest + j div 16 * push_bit shift PIXELS_PER_TILE
                            + (ey XOR push_bit shift (space_4 ! (j mod 16))),
                       source + j * sizeof t)) [0..<16 * n]) m"
proof (induction n arbitrary: source dest m)
  case 0
  then show ?case
    by (subst store_tiles.simps) (simp add: exec_def)
next
  case (Suc n)
  let ?op = "\<lambda>dest source j. (dest + j div 16 * push_bit shift PIXELS_PER_TILE
                            + (ey XOR push_bit shift (space_4 ! (j mod 16))),
                       source + j * sizeof t)"
  have lt: "source < source + Suc n * 16 * sizeof t"
    using sizeof_pos [of t] by simp
  have end_eq: "source + Suc n * 16 * sizeof t = (source + 16 * sizeof t) + n * 16 * sizeof t"
    by (simp add: algebra_simps)
  have split: "[0..<16 * Suc n] = [0..<16] @ map (\<lambda>j. j + 16) [0..<16 * n]"
    using upt_add_eq_append [of 0 16 "16 * n"] map_add_upt [of 16 "16 * n"]
    by (simp add: add.commute del: upt_Suc)
  have first: "map (?op dest source) [0..<16] =
      map (\<lambda>i. (dest + (ey XOR push_bit shift (space_4 ! i)), source + i * sizeof t)) [0..<16]"
    by (rule map_cong) simp_all
  have rest: "map (?op dest source) (map (\<lambda>j. j + 16) [0..<16 * n]) =
      map (?op (dest + push_bit shift PIXELS_PER_TILE) (source + 16 * sizeof t)) [0..<16 * n]"
  proof -
    have "(j + 16) div 16 = j div 16 + 1" "(j + 16) mod 16 = j mod 16" for j :: nat
      by simp_all
    then have "?op dest source (j + 16) =
        ?op (dest + push_bit shift PIXELS_PER_TILE) (source + 16 * sizeof t) j" for j
      by (simp add: algebra_simps)
    then show ?thesis
      by (simp add: comp_def del: upt_Suc)
  qed
  show ?case
    apply (subst store_tiles.simps)
    apply (simp only: lt if_True Let_def for_loop_fold tile_pixels_exec fst_conv snd_conv)
    apply (subst end_eq)
    apply (subst Suc.IH)
    apply (simp only: split map_append exec_append first rest)
    done
qed

lemma fast_exec:
  assumes "16 dvd u16 w0"
  shows "TILED_STORE_TYPE t shift dst src sx0 sy0 w0 h0 dst_stride src_stride m =
         exec t (fast_ops t shift dst src sx0 sy0 w0 h0 dst_stride src_stride) m"
proof -
  from assms obtain n where w: "u16 w0 = n * 16"
    by (auto simp: dvd_def)
  have w': "u16 w0 * sizeof t = n * 16 * sizeof t" "[0..<u16 w0] = [0..<16 * n]"
    by (simp_all add: w mult.commute)
  show ?thesis
    unfolding TILED_STORE_TYPE_def fast_ops_def for_loop_fold Let_def w' store_tiles_exec
    by (simp only: fold_exec_concat)
qed

lemma and_15: "(x::nat) AND 15 = x mod 16"
  using and_low_mask [of x 4] by simp

lemma and_not32_15: "y < 2 ^ 32 \<Longrightarrow> y AND not32 15 = y div 16 * 16"
  using and_high_mask [of y 4] by simp

lemma fast_ops_aligned:
  assumes sz: "sizeof t = 2 ^ shift"
    and al: "16 dvd sx"
    and bounds: "sx < 2 ^ 16" "sy < 2 ^ 16" "w < 2 ^ 16" "h < 2 ^ 16" "sy + h \<le> 2 ^ 16"
  shows "fast_ops t shift dst src sx sy w h dst_stride src_stride =
         unaligned_ops t True 4 dst src sx sy w h dst_stride src_stride"
proof -
  have u: "u16 sx = sx" "u16 sy = sy" "u16 w = w" "u16 h = h"
    using bounds by (simp_all add: u16_def)
  have pt: "dst + drop_bit 4 sx * PIXELS_PER_TILE * sizeof t
              + u32 (u16 ((sy + i) AND not32 15) * dst_stride)
              + j div 16 * push_bit shift PIXELS_PER_TILE
              + (push_bit shift (bit_duplication ! ((sy + i) AND 15))
                   XOR push_bit shift (space_4 ! (j mod 16)))
            = wtiled t 4 dst dst_stride (sx + j) (sy + i)" if "i < h" for i j
  proof -
    have yi: "sy + i < 2 ^ 16" using that bounds by simp
    then have yi32: "sy + i < 2 ^ 32" by simp
    have "(sy + i) div 16 * 16 \<le> sy + i" by simp
    then have b16: "u16 ((sy + i) div 16 * 16) = (sy + i) div 16 * 16"
      using yi by (simp add: u16_def)
    have xs: "(sx + j) div 16 = sx div 16 + j div 16" "(sx + j) mod 16 = j mod 16"
      using al by (auto simp: div_add1_eq mod_add_eq dvd_eq_mod_eq_0)
    have e1: "u16 ((sy + i) AND not32 15) = (sy + i) div 16 * 16"
      by (simp add: and_not32_15 [OF yi32] b16)
    have "push_bit shift (bit_duplication ! ((sy + i) AND 15)) XOR push_bit shift (space_4 ! (j mod 16))
          = push_bit shift (interleave 4 (sx + j) (sy + i))"
      by (simp add: and_15 interleave_def xs)
    also have "\<dots> = sizeof t * interleave 4 (sx + j) (sy + i)"
      by (simp add: push_bit_eq_mult sz del: push_bit_xor)
    finally have e2: "push_bit shift (bit_duplication ! ((sy + i) AND 15))
          XOR push_bit shift (space_4 ! (j mod 16)) = sizeof t * interleave 4 (sx + j) (sy + i)" .
    have e3: "drop_bit 4 sx * PIXELS_PER_TILE * sizeof t + j div 16 * push_bit shift PIXELS_PER_TILE
          = sizeof t * ((sx + j) div 16 * 2 ^ (2 * 4))"
      unfolding xs
      by (simp add: sz PIXELS_PER_TILE_def TILE_WIDTH_def TILE_HEIGHT_def drop_bit_eq_div
          push_bit_eq_mult algebra_simps)
    let ?A1 = "drop_bit 4 sx * PIXELS_PER_TILE * sizeof t"
    let ?A2 = "j div 16 * push_bit shift PIXELS_PER_TILE"
    let ?U = "u32 (u16 ((sy + i) AND not32 15) * dst_stride)"
    let ?E = "push_bit shift (bit_duplication ! ((sy + i) AND 15))
                XOR push_bit shift (space_4 ! (j mod 16))"
    have "dst + ?A1 + ?U + ?A2 + ?E = dst + ?U + ((?A1 + ?A2) + ?E)"
      by simp
    also have "\<dots> = dst + u32 ((sy + i) div 16 * 16 * dst_stride)
         + (sizeof t * ((sx + j) div 16 * 2 ^ (2 * 4)) + sizeof t * interleave 4 (sx + j) (sy + i))"
      by (simp only: e1 e2 e3)
    also have "\<dots> = wtiled t 4 dst dst_stride (sx + j) (sy + i)"
      by (simp add: wtiled_def add_mult_distrib2)
    finally show ?thesis .
  qed
  show ?thesis
    unfolding fast_ops_def unaligned_ops_def product_concat_map map_concat u
    apply (rule arg_cong [where f = concat])
    apply (simp only: map_map comp_def prod.case)
    apply (rule map_cong [OF refl])
    apply (rule map_cong [OF refl])
    apply (simp only: pt set_upt atLeastLessThan_iff)
    apply (simp add: copy_op_def wlinear_def mult.commute)
    done
qed

lemma copies_unwritten:
  "(\<And>d s. (d, s) \<in> set ops \<Longrightarrow> a < d \<or> d + sizeof t \<le> a) \<Longrightarrow> copies t ops m a = m a"
proof (induction ops arbitrary: m)
  case Nil
  then show ?case by (simp add: copies_def)
next
  case (Cons op ops)
  obtain d s where op: "op = (d, s)" by (cases op)
  have "copies t (op # ops) m a = copies t ops (copy_pixel t d s m) a"
    by (simp add: copies_def op)
  also have "\<dots> = copy_pixel t d s m a"
    using Cons.prems by (intro Cons.IH) auto
  also have "\<dots> = m a"
    using Cons.prems [of d s] by (auto simp: copy_pixel_def op)
  finally show ?case .
qed

lemma coherentD1:
  "coherent t ops \<Longrightarrow> (d, s) \<in> ops \<Longrightarrow> (d', s') \<in> ops \<Longrightarrow> k < sizeof t \<Longrightarrow> k' < sizeof t
   \<Longrightarrow> s + k \<noteq> d' + k'"
  unfolding coherent_def by blast

lemma coherentD2:
  "coherent t ops \<Longrightarrow> (d, s) \<in> ops \<Longrightarrow> (d', s') \<in> ops \<Longrightarrow> k < sizeof t \<Longrightarrow> k' < sizeof t
   \<Longrightarrow> d + k = d' + k' \<Longrightarrow> s + k = s' + k'"
  unfolding coherent_def by blast

lemma coherent_subset: "coherent t B \<Longrightarrow> A \<subseteq> B \<Longrightarrow> coherent t A"
  unfolding coherent_def by blast

lemma copies_written:
  "coherent t (set ops) \<Longrightarrow> (d, s) \<in> set ops \<Longrightarrow> k < sizeof t \<Longrightarrow> copies t ops m (d + k) = m (s + k)"
proof (induction ops arbitrary: d s k rule: rev_induct)
  case Nil
  then show ?case by simp
next
  case (snoc op ops)
  obtain d' s' where op: "op = (d', s')" by (cases op)
  have in_last: "(d', s') \<in> set (ops @ [op])"
    by (simp add: op)
  have sub: "coherent t (set ops)"
    by (rule coherent_subset [OF snoc.prems(1)]) auto
  have step: "copies t (ops @ [op]) m = copy_pixel t d' s' (copies t ops m)"
    by (simp add: copies_def op)
  show ?case
  proof (cases "d' \<le> d + k \<and> d + k < d' + sizeof t")
    case True
    define k' where "k' = d + k - d'"
    have k'1: "k' < sizeof t" and k'2: "d + k = d' + k'"
      using True unfolding k'_def by arith+
    have src_eq: "s + k = s' + k'"
      by (rule coherentD2 [OF snoc.prems(1) snoc.prems(2) in_last snoc.prems(3) k'1 k'2])
    have "copies t ops m (s' + k') = m (s' + k')"
    proof (rule copies_unwritten)
      fix d2 s2
      assume "(d2, s2) \<in> set ops"
      then have in2: "(d2, s2) \<in> set (ops @ [op])"
        by simp
      have ne: "s' + k' \<noteq> d2 + j" if "j < sizeof t" for j
        by (rule coherentD1 [OF snoc.prems(1) in_last in2 k'1 that])
      show "s' + k' < d2 \<or> d2 + sizeof t \<le> s' + k'"
        using ne [of "s' + k' - d2"] by arith
    qed
    moreover have "copy_pixel t d' s' (copies t ops m) (d + k) = copies t ops m (s' + k')"
      using True unfolding copy_pixel_def k'_def by simp
    ultimately show ?thesis
      unfolding step src_eq by simp
  next
    case False
    then have "(d, s) \<noteq> op"
      using snoc.prems(3) unfolding op by auto
    then have mem: "(d, s) \<in> set ops"
      using snoc.prems(2) by simp
    have "copies t ops m (d + k) = m (s + k)"
      by (rule snoc.IH [OF sub mem snoc.prems(3)])
    moreover have "copy_pixel t d' s' (copies t ops m) (d + k) = copies t ops m (d + k)"
      using False unfolding copy_pixel_def by auto
    ultimately show ?thesis
      unfolding step by simp
  qed
qed

lemma copies_cong_set:
  assumes "coherent t (set ops)" "set ops = set ops'"
  shows "copies t ops m = copies t ops' m"
proof (rule ext)
  fix a
  show "copies t ops m a = copies t ops' m a"
  proof (cases "\<exists>d s. (d, s) \<in> set ops \<and> d \<le> a \<and> a < d + sizeof t")
    case True
    then obtain d s where ds: "(d, s) \<in> set ops" "d \<le> a" "a < d + sizeof t"
      by blast
    define k where "k = a - d"
    have k: "k < sizeof t" "a = d + k"
      using ds unfolding k_def by arith+
    show ?thesis
      unfolding k(2)
      using copies_written [OF assms(1) ds(1) k(1)]
        copies_written [OF assms(1) [unfolded assms(2)] ds(1) [unfolded assms(2)] k(1)]
      by simp
  next
    case False
    then have "\<And>d s. (d, s) \<in> set ops \<Longrightarrow> a < d \<or> d + sizeof t \<le> a"
      by (meson not_le_imp_less)
    then show ?thesis
      using copies_unwritten [of ops a t m] copies_unwritten [of ops' a t m] assms(2) by simp
  qed
qed

lemma alignof_sizeof: "alignof t = sizeof t"
  by (cases t) simp_all

lemma assign_pixel_Some:
  "assign_pixel t d s (Some m) =
   (if alignof t dvd d \<and> alignof t dvd s then Some (copy_pixel t d s m) else None)"
  by (simp add: assign_pixel_def copy_pixel_def)

lemma assign_pixel_None: "assign_pixel t d s None = None"
  by (simp add: assign_pixel_def)

lemma exec_None: "exec t ops None = None"
  by (induction ops) (simp_all add: exec_def assign_pixel_None case_prod_unfold)

lemma exec_Some:
  "exec t ops (Some m) = (if aligned_ops t (set ops) then Some (copies t ops m) else None)"
proof (induction ops arbitrary: m)
  case Nil
  then show ?case
    by (simp add: exec_def copies_def aligned_ops_def)
next
  case (Cons op ops)
  obtain d s where op: "op = (d, s)" by (cases op)
  have step: "exec t (op # ops) (Some m) = exec t ops (assign_pixel t d s (Some m))"
    by (simp add: exec_def op)
  show ?case
  proof (cases "alignof t dvd d \<and> alignof t dvd s")
    case True
    then have "exec t (op # ops) (Some m) = exec t ops (Some (copy_pixel t d s m))"
      unfolding step by (simp add: assign_pixel_Some)
    also have "\<dots> = (if aligned_ops t (set ops) then Some (copies t ops (copy_pixel t d s m))
                      else None)"
      by (rule Cons.IH)
    finally show ?thesis
      using True by (simp add: aligned_ops_def copies_def op)
  next
    case False
    then have "assign_pixel t d s (Some m) = None"
      unfolding assign_pixel_Some by (simp only: if_False)
    then have "exec t (op # ops) (Some m) = None"
      unfolding step by (simp only: exec_None)
    then show ?thesis
      using False by (auto simp: aligned_ops_def op)
  qed
qed

lemma exec_defined: "aligned_ops t (set ops) \<Longrightarrow> \<exists>m'. exec t ops (Some m) = Some m'"
  by (simp add: exec_Some)

lemma exec_result: "exec t ops (Some m) = Some m' \<Longrightarrow> m' = copies t ops m"
  by (simp add: exec_Some split: if_splits)

lemma exec_unwritten:
  assumes "\<And>d s. (d, s) \<in> set ops \<Longrightarrow> a < d \<or> d + sizeof t \<le> a"
    and "exec t ops (Some m) = Some m'"
  shows "m' a = m a"
  unfolding exec_result [OF assms(2)] using assms(1) by (rule copies_unwritten)

lemma exec_written:
  assumes "coherent t (set ops)" "(d, s) \<in> set ops" "k < sizeof t"
    and "exec t ops (Some m) = Some m'"
  shows "m' (d + k) = m (s + k)"
  unfolding exec_result [OF assms(4)] using assms(1-3) by (rule copies_written)

lemma exec_cong_set:
  assumes "coherent t (set ops)" "set ops = set ops'"
  shows "exec t ops m = exec t ops' m"
proof (cases m)
  case None
  then show ?thesis
    by (simp add: exec_None)
next
  case (Some b)
  show ?thesis
    unfolding Some exec_Some using copies_cong_set [OF assms, of b] assms(2) by simp
qed

lemma div_less_tiles: "x < n \<Longrightarrow> x div 2 ^ ts < tiles ts n"
proof -
  assume "x < n"
  then have "x + 2 ^ ts \<le> n + 2 ^ ts - 1"
    by simp
  then have "(x + 2 ^ ts) div 2 ^ ts \<le> (n + 2 ^ ts - 1) div 2 ^ ts"
    by (rule div_le_mono)
  moreover have "(x + 2 ^ ts) div 2 ^ ts = x div 2 ^ ts + 1"
    using div_add_self2 [of "2 ^ ts :: nat" x] by simp
  ultimately show ?thesis
    unfolding tiles_def by linarith
qed

lemma mult_add_unique:
  fixes a r n :: nat
  assumes "a * n + r = a' * n + r'" "r < n" "r' < n"
  shows "a = a' \<and> r = r'"
proof -
  have "(a * n + r) div n = a" "(a' * n + r') div n = a'"
    using assms(2,3) by simp_all
  then have "a = a'"
    using assms(1) by simp
  then show ?thesis
    using assms(1) by simp
qed

lemma tile_offset_less:
  assumes ts: "ts = 2 \<or> ts = 4"
    and x: "x < W"
    and stride: "sizeof t * 2 ^ ts * tiles ts W \<le> stride"
    and k: "k < sizeof t"
  shows "sizeof t * (x div 2 ^ ts * 2 ^ (2 * ts) + interleave ts x y) + k < 2 ^ ts * stride"
proof -
  let ?q = "x div 2 ^ ts * 2 ^ (2 * ts) + interleave ts x y"
  have "?q + 1 \<le> (x div 2 ^ ts + 1) * 2 ^ (2 * ts)"
    using interleave_less [OF ts, of x y] by simp
  also have "\<dots> \<le> tiles ts W * 2 ^ (2 * ts)"
    using div_less_tiles [OF x, of ts] by (intro mult_le_mono1) simp
  finally have q: "?q + 1 \<le> tiles ts W * 2 ^ (2 * ts)" .
  have "sizeof t * ?q + k < sizeof t * (?q + 1)"
    using k by simp
  also have "\<dots> \<le> sizeof t * (tiles ts W * 2 ^ (2 * ts))"
    using q by (rule mult_le_mono2)
  also have "\<dots> = sizeof t * 2 ^ ts * tiles ts W * 2 ^ ts"
    by (simp add: power2_eq_square power_mult mult.commute [of 2 ts] algebra_simps)
  also have "\<dots> \<le> stride * 2 ^ ts"
    using stride by (rule mult_le_mono1)
  finally show ?thesis
    by (simp add: mult.commute)
qed

lemma interleave_inj:
  assumes ts: "ts = 2 \<or> ts = 4"
    and eq: "interleave ts x y = interleave ts x' y'"
  shows "x mod 2 ^ ts = x' mod 2 ^ ts \<and> y mod 2 ^ ts = y' mod 2 ^ ts"
proof -
  have "(2::nat) ^ ts \<le> 16"
    using ts by auto
  then have "n mod 2 ^ ts < 16" for n :: nat
    by (meson less_le_trans mod_less_divisor zero_less_numeral zero_less_power)
  then show ?thesis
    using eq index_inj [of "x mod 2 ^ ts" "y mod 2 ^ ts" "x' mod 2 ^ ts" "y' mod 2 ^ ts"]
    by (simp add: interleave_def)
qed

lemma div_mod_eq: "(a::nat) div n = b div n \<Longrightarrow> a mod n = b mod n \<Longrightarrow> a = b"
  by (metis div_mult_mod_eq)

lemma tiled_addr_inj:
  assumes ts: "ts = 2 \<or> ts = 4"
    and x: "x < W" "x' < W"
    and stride: "sizeof t * 2 ^ ts * tiles ts W \<le> stride"
    and k: "k < sizeof t" "k' < sizeof t"
    and eq: "tiled_addr t ts dst stride x y + k = tiled_addr t ts dst stride x' y' + k'"
  shows "x = x' \<and> y = y' \<and> k = k'"
proof -
  let ?q = "\<lambda>x y. x div 2 ^ ts * 2 ^ (2 * ts) + interleave ts x y"
  let ?r = "\<lambda>x y k. sizeof t * ?q x y + k"
  have r: "?r x y k < 2 ^ ts * stride" "?r x' y' k' < 2 ^ ts * stride"
    using tile_offset_less [OF ts x(1) stride k(1)] tile_offset_less [OF ts x(2) stride k(2)]
    by simp_all
  have "y div 2 ^ ts * (2 ^ ts * stride) + ?r x y k = y' div 2 ^ ts * (2 ^ ts * stride) + ?r x' y' k'"
    using eq by (simp add: tiled_addr_def algebra_simps)
  from mult_add_unique [OF this r]
  have ydiv: "y div 2 ^ ts = y' div 2 ^ ts" and req: "?r x y k = ?r x' y' k'"
    by simp_all
  have "?q x y * sizeof t + k = ?q x' y' * sizeof t + k'"
    using req by (simp add: mult.commute)
  from mult_add_unique [OF this k]
  have qeq: "?q x y = ?q x' y'" and keq: "k = k'"
    by simp_all
  from mult_add_unique [OF qeq interleave_less [OF ts] interleave_less [OF ts]]
  have xdiv: "x div 2 ^ ts = x' div 2 ^ ts" and ieq: "interleave ts x y = interleave ts x' y'"
    by simp_all
  from interleave_inj [OF ts ieq]
  have "x mod 2 ^ ts = x' mod 2 ^ ts" "y mod 2 ^ ts = y' mod 2 ^ ts"
    by simp_all
  then show ?thesis
    using xdiv ydiv keq by (auto intro: div_mod_eq)
qed

lemma tiled_addr_range:
  assumes ts: "ts = 2 \<or> ts = 4"
    and x: "x < W" and y: "y < H"
    and stride: "sizeof t * 2 ^ ts * tiles ts W \<le> stride"
    and k: "k < sizeof t"
  shows "dst \<le> tiled_addr t ts dst stride x y + k"
    and "tiled_addr t ts dst stride x y + k < dst + 2 ^ ts * stride * tiles ts H"
proof -
  show "dst \<le> tiled_addr t ts dst stride x y + k"
    by (simp add: tiled_addr_def)
  have "y div 2 ^ ts * (2 ^ ts * stride) + (sizeof t * (x div 2 ^ ts * 2 ^ (2 * ts) + interleave ts x y) + k)
        < y div 2 ^ ts * (2 ^ ts * stride) + 2 ^ ts * stride"
    using tile_offset_less [OF ts x stride k] by simp
  also have "\<dots> = (y div 2 ^ ts + 1) * (2 ^ ts * stride)"
    by simp
  also have "\<dots> \<le> tiles ts H * (2 ^ ts * stride)"
    using div_less_tiles [OF y, of ts] by (intro mult_le_mono1) simp
  finally show "tiled_addr t ts dst stride x y + k < dst + 2 ^ ts * stride * tiles ts H"
    by (simp add: tiled_addr_def algebra_simps)
qed

lemma sub32_id: "b \<le> a \<Longrightarrow> a < 2 ^ 32 \<Longrightarrow> sub32 a b = a - b"
proof -
  assume a: "b \<le> a" "a < 2 ^ 32"
  then have "a + 2 ^ 32 - b = (a - b) + 1 * 2 ^ 32"
    by simp
  then have "sub32 a b = (a - b) mod 2 ^ 32"
    unfolding sub32_def by (simp only: mod_mult_self1)
  then show ?thesis
    using a by simp
qed

lemma last_full: "n < 2 ^ 32 \<Longrightarrow> u32 (u32 n div 16 * 16) = n div 16 * 16"
proof -
  assume n: "n < 2 ^ 32"
  have "n div 16 * 16 \<le> n"
    by simp
  then show ?thesis
    using n by (simp add: u32_def)
qed

lemma first_full_aligned:
  assumes "n < 2 ^ 32" "16 dvd n"
  shows "u32 (DIV_ROUND_UP n 16 * 16) = n"
proof -
  from assms(2) obtain q where q: "n = 16 * q"
    by (auto simp: dvd_def)
  have "n + 15 < 2 ^ 32"
    using assms(1) unfolding q by simp
  then have "DIV_ROUND_UP n 16 = q"
    unfolding DIV_ROUND_UP_def u32_def q by simp
  then show ?thesis
    using assms(1) by (simp add: u32_def q)
qed

lemma first_full_unaligned:
  assumes "n < 2 ^ 32" "\<not> 16 dvd n"
  shows "u32 (DIV_ROUND_UP n 16 * 16) \<noteq> n"
    and "sub32 (u32 (DIV_ROUND_UP n 16 * 16)) n = 16 - n mod 16"
proof -
  define q r where "q = n div 16" and "r = n mod 16"
  have n: "n = 16 * q + r" and r: "r < 16" "0 < r"
    using assms(2) by (simp_all add: q_def r_def dvd_eq_mod_eq_0)
  have q: "q < 2 ^ 28"
    using assms(1) unfolding n by simp
  have rup: "(r + 15) div 16 = 1"
    using r by simp
  have goal: "u32 (DIV_ROUND_UP n 16 * 16) \<noteq> n \<and>
              sub32 (u32 (DIV_ROUND_UP n 16 * 16)) n = 16 - r"
  proof (cases "q + 1 < 2 ^ 28")
    case True
    then have lt: "n + 15 < 2 ^ 32"
      using r unfolding n by simp
    have "(16 * q + r + 15) div 16 = q + (r + 15) div 16"
      by simp
    then have "DIV_ROUND_UP n 16 = q + 1"
      using lt rup unfolding DIV_ROUND_UP_def u32_def n by simp
    moreover have "(q + 1) * 16 < 2 ^ 32"
      using True by simp
    ultimately have f: "u32 (DIV_ROUND_UP n 16 * 16) = 16 * q + 16"
      by (simp add: u32_def)
    have "sub32 (16 * q + 16) n = 16 * q + 16 - n"
      by (rule sub32_id) (use r True in \<open>simp_all add: n\<close>)
    then show ?thesis
      using r unfolding f by (simp add: n)
  next
    case False
    then have q': "q = 2 ^ 28 - 1"
      using q by simp
    have "n + 16 - 1 = (r - 1) + 1 * 2 ^ 32"
      using r unfolding n q' by simp
    then have "u32 (n + 16 - 1) = (r - 1) mod 2 ^ 32"
      unfolding u32_def by (simp only: mod_mult_self1)
    then have "u32 (n + 16 - 1) = r - 1"
      using r by simp
    then have "DIV_ROUND_UP n 16 = 0"
      using r unfolding DIV_ROUND_UP_def by simp
    then have f: "u32 (DIV_ROUND_UP n 16 * 16) = 0"
      by (simp add: u32_def)
    have "sub32 0 n = (2 ^ 32 - n) mod 2 ^ 32"
      by (simp add: sub32_def)
    also have "\<dots> = 16 - r"
      using r unfolding n q' by simp
    finally show ?thesis
      using r unfolding f by (simp add: n)
  qed
  show "u32 (DIV_ROUND_UP n 16 * 16) \<noteq> n"
    using goal by simp
  show "sub32 (u32 (DIV_ROUND_UP n 16 * 16)) n = 16 - n mod 16"
    using goal by (simp add: r_def)
qed

lemma right_as_regions:
  "store_right desc last_x ox oy dst src x y w h dst_stride src_stride m =
   fold (run_region desc ox oy dst src dst_stride src_stride) (regions_right last_x x y w h) m"
  unfolding store_right_def regions_right_def Let_def
  by (simp add: run_region_def)

lemma left_as_regions:
  "store_left desc first_x last_x ox oy dst src x y w h dst_stride src_stride m =
   fold (run_region desc ox oy dst src dst_stride src_stride) (regions_left first_x last_x x y w h) m"
  unfolding store_left_def regions_left_def Let_def right_as_regions
  by (simp add: run_region_def)

lemma bottom_as_regions:
  "store_bottom desc first_x last_x last_y ox oy dst src x y w h dst_stride src_stride m =
   fold (run_region desc ox oy dst src dst_stride src_stride)
     (regions_bottom first_x last_x last_y x y w h) m"
  unfolding store_bottom_def regions_bottom_def Let_def left_as_regions
  by (simp add: run_region_def)

lemma store_as_regions:
  "\<not> block_width desc > 1 \<Longrightarrow>
   panfrost_store_tiled_image dst src x y w h dst_stride src_stride desc m =
   fold (run_region desc x y dst src dst_stride src_stride) (store_regions x y w h) m"
  unfolding panfrost_store_tiled_image_def store_regions_def Let_def bottom_as_regions
  by (simp add: run_region_def)

lemma splits_interior:
  "16 dvd x \<Longrightarrow> 16 dvd y \<Longrightarrow> 16 dvd w \<Longrightarrow> 16 dvd h \<Longrightarrow> splits [(Interior, x, y, w, h)] x y w h"
  by (simp add: splits_def)

lemma within_mono:
  "within x1 y1 w1 h1 r \<Longrightarrow> x \<le> x1 \<Longrightarrow> x1 + w1 \<le> x + w \<Longrightarrow> y \<le> y1 \<Longrightarrow> y1 + h1 \<le> y + h
   \<Longrightarrow> within x y w h r"
  by (cases r) simp

lemma splits_cons:
  assumes rest: "splits rs x1 y1 w1 h1"
    and k: "k \<noteq> Interior"
    and inside: "x \<le> x0" "x0 + w0 \<le> x + w" "y \<le> y0" "y0 + h0 \<le> y + h"
    and union: "{x0..<x0 + w0} \<times> {y0..<y0 + h0} \<union> {x1..<x1 + w1} \<times> {y1..<y1 + h1}
                = {x..<x + w} \<times> {y..<y + h}"
    and disj: "{x0..<x0 + w0} \<times> {y0..<y0 + h0} \<inter> {x1..<x1 + w1} \<times> {y1..<y1 + h1} = {}"
    and sub: "x \<le> x1" "x1 + w1 \<le> x + w" "y \<le> y1" "y1 + h1 \<le> y + h"
  shows "splits ((k, x0, y0, w0, h0) # rs) x y w h"
proof -
  from rest have all: "(\<Union>r \<in> set rs. rect_set r) = {x1..<x1 + w1} \<times> {y1..<y1 + h1} \<and>
     disjoint_regions rs \<and> (\<forall>r \<in> set rs. within x1 y1 w1 h1 r \<and> interior_aligned r)"
    unfolding splits_def .
  from all have U: "(\<Union>r \<in> set rs. rect_set r) = {x1..<x1 + w1} \<times> {y1..<y1 + h1}"
    by (rule conjunct1)
  from all have D: "disjoint_regions rs"
    by (elim conjE)
  from all have I: "\<And>r. r \<in> set rs \<Longrightarrow> within x1 y1 w1 h1 r \<and> interior_aligned r"
    by (elim conjE) (rule bspec)
  have 1: "(\<Union>r \<in> set ((k, x0, y0, w0, h0) # rs). rect_set r) = {x..<x + w} \<times> {y..<y + h}"
    unfolding union [symmetric] U [symmetric] by simp
  have "rect_set (k, x0, y0, w0, h0) \<inter> rect_set r' = {}" if "r' \<in> set rs" for r'
  proof -
    have "rect_set r' \<subseteq> (\<Union>r \<in> set rs. rect_set r)"
      using that by (rule UN_upper)
    then have "rect_set r' \<subseteq> {x1..<x1 + w1} \<times> {y1..<y1 + h1}"
      unfolding U .
    then have "rect_set (k, x0, y0, w0, h0) \<inter> rect_set r'
        \<subseteq> {x0..<x0 + w0} \<times> {y0..<y0 + h0} \<inter> {x1..<x1 + w1} \<times> {y1..<y1 + h1}"
      unfolding rect_set.simps by (rule Int_mono [OF subset_refl])
    then show ?thesis
      unfolding disj by simp
  qed
  then have 2: "disjoint_regions ((k, x0, y0, w0, h0) # rs)"
    using D by simp
  have 3: "within x y w h r \<and> interior_aligned r" if "r \<in> set ((k, x0, y0, w0, h0) # rs)" for r
  proof (cases "r = (k, x0, y0, w0, h0)")
    case True
    then show ?thesis
      using k inside by simp
  next
    case False
    then have "r \<in> set rs"
      using that by simp
    then show ?thesis
      using I [of r] within_mono [OF _ sub, of r] by simp
  qed
  show ?thesis
    unfolding splits_def using 1 2 3 by blast
qed

lemma splits_empty: "splits [] x y 0 h" "splits [] x y w 0"
  by (simp_all add: splits_def)

lemma MIN2_min: "MIN2 a b = min a b"
  by (simp add: MIN2_def min_def)

lemma right_phase:
  assumes al: "16 dvd x" "16 dvd y" "16 dvd h" and b: "x + w < 2 ^ 32"
  shows "splits (regions_right (u32 (u32 (x + w) div 16 * 16)) x y w h) x y w h"
proof -
  define l where "l = (x + w) div 16 * 16"
  have last: "u32 (u32 (x + w) div 16 * 16) = l" and u: "u32 (x + w) = x + w"
    using b by (simp_all add: last_full l_def u32_id)
  have l: "l \<le> x + w" "16 dvd l"
    by (simp_all add: l_def)
  have last': "u32 ((x + w) div 16 * 16) = l"
    using l(1) b unfolding l_def by (intro u32_id) simp
  have "x div 16 * 16 \<le> (x + w) div 16 * 16"
    by (intro mult_le_mono1 div_le_mono) simp
  then have xl: "x \<le> l"
    using al(1) by (simp add: l_def dvd_div_mult_self)
  show ?thesis
  proof (cases "l = x + w")
    case True
    then have "16 dvd w"
      using al(1) l(2) by (simp add: dvd_add_right_iff)
    then show ?thesis
      using True al by (simp add: regions_right_def last' u splits_interior)
  next
    case False
    define d where "d = x + w - l"
    have d: "sub32 (x + w) l = d"
      unfolding d_def by (rule sub32_id [OF l(1) b])
    have dw: "d \<le> w" "w - d = l - x" "l + d = x + w" "x + (w - d) = l"
      using xl l(1) by (simp_all add: d_def)
    have wd: "sub32 w d = w - d"
      by (rule sub32_id [OF dw(1)]) (use b in simp)
    have "16 dvd (l - x)"
      using l(2) al(1) by (rule dvd_diff_nat)
    then have int: "splits [(Interior, x, y, w - d, h)] x y (w - d) h"
      using al by (intro splits_interior) (simp_all add: dw(2))
    have "splits ((Right, l, y, d, h) # [(Interior, x, y, w - d, h)]) x y w h"
    proof (rule splits_cons [OF int])
      show "{l..<l + d} \<times> {y..<y + h} \<union> {x..<x + (w - d)} \<times> {y..<y + h} =
            {x..<x + w} \<times> {y..<y + h}"
        unfolding dw(3,4) using xl l(1) by auto
      show "{l..<l + d} \<times> {y..<y + h} \<inter> {x..<x + (w - d)} \<times> {y..<y + h} = {}"
        unfolding dw(3,4) by auto
    qed (use xl l dw in simp_all)
    then show ?thesis
      using False by (simp add: regions_right_def last' u d wd)
  qed
qed

lemma left_phase:
  assumes al: "16 dvd y" "16 dvd h" and b: "x + w < 2 ^ 32"
  shows "splits (regions_left (u32 (DIV_ROUND_UP x 16 * 16)) (u32 (u32 (x + w) div 16 * 16))
           x y w h) x y w h"
proof (cases "16 dvd x")
  case True
  have x: "x < 2 ^ 32"
    using b by simp
  show ?thesis
    using right_phase [OF True al b]
    by (simp add: regions_left_def first_full_aligned [OF x True])
next
  case False
  have x: "x < 2 ^ 32"
    using b by simp
  define d where "d = 16 - x mod 16"
  note first = first_full_unaligned [OF x False, folded d_def]
  show ?thesis
  proof (cases "w \<le> d")
    case True
    have "splits ((Left, x, y, w, h) # []) x y w h"
      by (rule splits_cons [OF splits_empty(1) [of "x + w" y h]]) auto
    then show ?thesis
      using True first by (simp add: regions_left_def MIN2_min min_def)
  next
    case w: False
    have "x mod 16 < 16"
      by simp
    then have "x + d = (x div 16 + 1) * 16"
      unfolding d_def using div_mult_mod_eq [of x 16] by (simp only: add_mult_distrib)
    then have xd: "16 dvd (x + d)"
      by simp
    have sum: "x + d + (w - d) = x + w"
      using w by simp
    have u: "u32 (x + d) = x + d" "sub32 w d = w - d"
      using w b by (simp_all add: u32_id sub32_id)
    have rest: "splits (regions_right (u32 (u32 (x + w) div 16 * 16)) (x + d) y (w - d) h)
                  (x + d) y (w - d) h"
      using right_phase [OF xd al, of "w - d"] b unfolding sum by simp
    have "splits ((Left, x, y, d, h) #
             regions_right (u32 (u32 (x + w) div 16 * 16)) (x + d) y (w - d) h) x y w h"
    proof (rule splits_cons [OF rest])
      show "{x..<x + d} \<times> {y..<y + h} \<union> {x + d..<x + d + (w - d)} \<times> {y..<y + h} =
            {x..<x + w} \<times> {y..<y + h}"
        unfolding sum using w by auto
      show "{x..<x + d} \<times> {y..<y + h} \<inter> {x + d..<x + d + (w - d)} \<times> {y..<y + h} = {}"
        by auto
    qed (use w in simp_all)
    then show ?thesis
      using w first by (simp add: regions_left_def MIN2_min min_def u)
  qed
qed

lemma bottom_phase:
  assumes al: "16 dvd y" and b: "x + w < 2 ^ 32" "y + h < 2 ^ 32"
  shows "splits (regions_bottom (u32 (DIV_ROUND_UP x 16 * 16)) (u32 (u32 (x + w) div 16 * 16))
           (u32 (u32 (y + h) div 16 * 16)) x y w h) x y w h"
proof -
  define l where "l = (y + h) div 16 * 16"
  have u: "u32 (y + h) = y + h"
    using b by (simp add: u32_id)
  have l: "l \<le> y + h" "16 dvd l"
    by (simp_all add: l_def)
  have last': "u32 ((y + h) div 16 * 16) = l"
    using l(1) b unfolding l_def by (intro u32_id) simp
  have "y div 16 * 16 \<le> (y + h) div 16 * 16"
    by (intro mult_le_mono1 div_le_mono) simp
  then have yl: "y \<le> l"
    using al by (simp add: l_def dvd_div_mult_self)
  show ?thesis
  proof (cases "l = y + h")
    case True
    then have "16 dvd h"
      using al l(2) by (simp add: dvd_add_right_iff)
    then show ?thesis
      using True left_phase [OF al _ b(1), of h] by (simp add: regions_bottom_def last' u)
  next
    case False
    define d where "d = y + h - l"
    have d: "sub32 (y + h) l = d"
      unfolding d_def by (rule sub32_id [OF l(1) b(2)])
    have dh: "d \<le> h" "h - d = l - y" "l + d = y + h" "y + (h - d) = l"
      using yl l(1) by (simp_all add: d_def)
    have hd: "sub32 h d = h - d"
      by (rule sub32_id [OF dh(1)]) (use b in simp)
    have "16 dvd (l - y)"
      using l(2) al by (rule dvd_diff_nat)
    then have rest: "splits (regions_left (u32 (DIV_ROUND_UP x 16 * 16))
        (u32 (u32 (x + w) div 16 * 16)) x y w (h - d)) x y w (h - d)"
      using left_phase [OF al _ b(1), of "h - d"] by (simp add: dh(2))
    have "splits ((Bottom, x, l, w, d) # regions_left (u32 (DIV_ROUND_UP x 16 * 16))
        (u32 (u32 (x + w) div 16 * 16)) x y w (h - d)) x y w h"
    proof (rule splits_cons [OF rest])
      show "{x..<x + w} \<times> {l..<l + d} \<union> {x..<x + w} \<times> {y..<y + (h - d)} =
            {x..<x + w} \<times> {y..<y + h}"
        unfolding dh(3,4) using yl l(1) by auto
      show "{x..<x + w} \<times> {l..<l + d} \<inter> {x..<x + w} \<times> {y..<y + (h - d)} = {}"
        unfolding dh(3,4) by auto
    qed (use yl l dh in simp_all)
    then show ?thesis
      using False by (simp add: regions_bottom_def last' u d hd)
  qed
qed

lemma store_regions_splits:
  assumes b: "x + w < 2 ^ 32" "y + h < 2 ^ 32"
  shows "splits (store_regions x y w h) x y w h"
proof (cases "16 dvd y")
  case True
  have y: "y < 2 ^ 32"
    using b by simp
  show ?thesis
    using bottom_phase [OF True b]
    by (simp add: store_regions_def TILE_WIDTH_def TILE_HEIGHT_def first_full_aligned [OF y True])
next
  case False
  have y: "y < 2 ^ 32"
    using b by simp
  define d where "d = 16 - y mod 16"
  note first = first_full_unaligned [OF y False, folded d_def]
  show ?thesis
  proof (cases "h \<le> d")
    case True
    have "splits ((Top, x, y, w, h) # []) x y w h"
      by (rule splits_cons [OF splits_empty(2) [of x "y + h" w]]) auto
    then show ?thesis
      using True first
      by (simp add: store_regions_def TILE_WIDTH_def TILE_HEIGHT_def MIN2_min min_def)
  next
    case h: False
    have "y mod 16 < 16"
      by simp
    then have "y + d = (y div 16 + 1) * 16"
      unfolding d_def using div_mult_mod_eq [of y 16] by (simp only: add_mult_distrib)
    then have yd: "16 dvd (y + d)"
      by simp
    have sum: "y + d + (h - d) = y + h"
      using h by simp
    have u: "u32 (y + d) = y + d" "sub32 h d = h - d"
      using h b by (simp_all add: u32_id sub32_id)
    have rest: "splits (regions_bottom (u32 (DIV_ROUND_UP x 16 * 16))
        (u32 (u32 (x + w) div 16 * 16)) (u32 (u32 (y + h) div 16 * 16)) x (y + d) w (h - d))
        x (y + d) w (h - d)"
      using bottom_phase [OF yd b(1), of "h - d"] b(2) unfolding sum by simp
    have "splits ((Top, x, y, w, d) # regions_bottom (u32 (DIV_ROUND_UP x 16 * 16))
        (u32 (u32 (x + w) div 16 * 16)) (u32 (u32 (y + h) div 16 * 16)) x (y + d) w (h - d))
        x y w h"
    proof (rule splits_cons [OF rest])
      show "{x..<x + w} \<times> {y..<y + d} \<union> {x..<x + w} \<times> {y + d..<y + d + (h - d)} =
            {x..<x + w} \<times> {y..<y + h}"
        unfolding sum using h by auto
      show "{x..<x + w} \<times> {y..<y + d} \<inter> {x..<x + w} \<times> {y + d..<y + d + (h - d)} = {}"
        by auto
    qed (use h in simp_all)
    then show ?thesis
      using h first
      by (simp add: store_regions_def TILE_WIDTH_def TILE_HEIGHT_def MIN2_min min_def u)
  qed
qed

lemma sizeof_shift: "sizeof t = 2 ^ shift_of t"
  by (cases t) simp_all

lemma generic_unaligned:
  "\<not> 1 < block_width desc \<Longrightarrow> block_bits desc = 8 * sizeof t \<Longrightarrow>
   panfrost_access_tiled_image_generic dst src x y w h dst_stride src_stride desc is_store m =
   TILED_UNALIGNED_TYPE t is_store 4 dst src x y w h dst_stride src_stride m"
  by (cases t; cases is_store)
     (simp_all add: panfrost_access_tiled_image_generic_def TILED_UNALIGNED_TYPES_def)

lemma generic_compressed:
  "1 < block_width desc \<Longrightarrow> block_bits desc = 8 * sizeof t \<Longrightarrow>
   panfrost_access_tiled_image_generic dst src x y w h dst_stride src_stride desc is_store m =
   TILED_UNALIGNED_TYPE t is_store 2 dst src x y
     (DIV_ROUND_UP w (block_width desc)) (DIV_ROUND_UP h (block_height desc))
     dst_stride src_stride m"
  by (cases t; cases is_store)
     (simp_all add: panfrost_access_tiled_image_generic_def TILED_UNALIGNED_TYPES_def Let_def)

lemma interior_fast:
  "bpp = 8 * sizeof t \<Longrightarrow>
   store_interior bpp ox oy dst src x y w h dst_stride src_stride m =
   TILED_STORE_TYPE t (shift_of t) dst (OFFSET ox oy src_stride bpp src x y) x y w h
     dst_stride src_stride m"
  by (cases t)
     (simp_all add: store_interior_def Let_def panfrost_store_tiled_image_uint8_t_def
        panfrost_store_tiled_image_uint16_t_def panfrost_store_tiled_image_uint32_t_def
        panfrost_store_tiled_image_uint64_t_def panfrost_store_tiled_image_pan_uint128_t_def)

lemma OFFSET_linear:
  assumes "bpp = 8 * sizeof t" "ox \<le> x" "oy \<le> y" "x < 2 ^ 32" "y < 2 ^ 32"
    and "(y - oy) * src_stride < 2 ^ 32" "(x - ox) * sizeof t < 2 ^ 32"
  shows "OFFSET ox oy src_stride bpp src x y = linear_addr t src src_stride (y - oy) (x - ox)"
  using assms by (simp add: OFFSET_def linear_addr_def sub32_id u32_id mult.commute)

lemma wtiled_exact:
  assumes "y < H" "tiled_size ts stride H < 2 ^ 32"
  shows "wtiled t ts dst stride x y = tiled_addr t ts dst stride x y"
proof -
  have "y div 2 ^ ts * (2 ^ ts * stride) \<le> tiles ts H * (2 ^ ts * stride)"
    using div_less_tiles [OF assms(1), of ts] by (intro mult_le_mono1) simp
  also have "\<dots> = tiled_size ts stride H"
    by (simp add: tiled_size_def)
  finally have "y div 2 ^ ts * (2 ^ ts * stride) < 2 ^ 32"
    using assms(2) by (rule le_less_trans)
  then have "u32 (y div 2 ^ ts * 2 ^ ts * stride) = y div 2 ^ ts * 2 ^ ts * stride"
    by (intro u32_id) (simp add: mult.assoc)
  then show ?thesis
    by (simp add: wtiled_def tiled_addr_def)
qed

lemma wlinear_exact:
  assumes "i < H" "H * stride < 2 ^ 32"
  shows "wlinear t src stride i j = linear_addr t src stride i j"
proof -
  have "i * stride \<le> H * stride"
    using assms(1) by (intro mult_le_mono1) simp
  then have "i * stride < 2 ^ 32"
    using assms(2) by (rule le_less_trans)
  then have "u32 (i * stride) = i * stride"
    by (rule u32_id)
  then show ?thesis
    by (simp add: wlinear_def linear_addr_def)
qed

lemma linear_addr_shift:
  "linear_addr t (linear_addr t src stride i0 j0) stride i j = linear_addr t src stride (i0 + i) (j0 + j)"
  by (simp add: linear_addr_def algebra_simps)

lemma unaligned_ops_exact:
  assumes org: "ox \<le> x" "oy \<le> y"
    and tiled: "y + h \<le> H" "tiled_size ts dst_stride H < 2 ^ 32"
    and lin: "h * src_stride < 2 ^ 32"
  shows "unaligned_ops t is_store ts dst (linear_addr t src src_stride (y - oy) (x - ox)) x y w h
           dst_stride src_stride =
         map (pixel_op t is_store ts dst dst_stride src src_stride ox oy)
           (region_pixels (k, x, y, w, h))"
proof -
  have "copy_op is_store (wtiled t ts dst dst_stride (x + j) (y + i))
          (wlinear t (linear_addr t src src_stride (y - oy) (x - ox)) src_stride i j) =
        pixel_op t is_store ts dst dst_stride src src_stride ox oy (x + j, y + i)"
    if "i < h" for i j
  proof -
    have "y + i < H"
      using that tiled(1) by simp
    then show ?thesis
      using org by (simp add: pixel_op_def wtiled_exact [OF _ tiled(2)] wlinear_exact [OF that lin]
          linear_addr_shift)
  qed
  then show ?thesis
    by (auto simp: unaligned_ops_def comp_def)
qed

lemma set_region_pixels: "set (region_pixels r) = rect_set r"
proof (cases r)
  case (fields k x y w h)
  show ?thesis
    unfolding fields
  proof (intro set_eqI iffI)
    fix p
    assume "p \<in> set (region_pixels (k, x, y, w, h))"
    then show "p \<in> rect_set (k, x, y, w, h)"
      by auto
  next
    fix p
    assume p: "p \<in> rect_set (k, x, y, w, h)"
    obtain px py where pp: "p = (px, py)"
      by (cases p)
    have "(py - y, px - x) \<in> set (List.product [0..<h] [0..<w])" "p = (x + (px - x), y + (py - y))"
      using p unfolding pp by auto
    then show "p \<in> set (region_pixels (k, x, y, w, h))"
      unfolding region_pixels.simps set_map by (intro image_eqI [where x = "(py - y, px - x)"]) simp_all
  qed
qed

lemma mult_le_less:
  fixes a b c :: nat
  shows "a \<le> b \<Longrightarrow> b * c < n \<Longrightarrow> a * c < n"
  by (meson le_less_trans mult_le_mono1)

lemma region_exec:
  assumes desc: "\<not> 1 < block_width desc" "block_bits desc = 8 * sizeof t"
    and dims: "ox + W < 2 ^ 16" "oy + H < 2 ^ 16"
    and tiled: "tiled_size 4 dst_stride (oy + H) < 2 ^ 32"
    and lin: "H * src_stride < 2 ^ 32"
    and r: "within ox oy W H r" "interior_aligned r"
  shows "run_region desc ox oy dst src dst_stride src_stride r m =
         exec t (map (pixel_op t True 4 dst dst_stride src src_stride ox oy) (region_pixels r)) m"
proof (cases r)
  case (fields k x y w h)
  have inside: "ox \<le> x" "x + w \<le> ox + W" "oy \<le> y" "y + h \<le> oy + H"
    using r(1) unfolding fields by simp_all
  have b16: "x < 2 ^ 16" "y < 2 ^ 16" "w < 2 ^ 16" "h < 2 ^ 16" "y + h \<le> 2 ^ 16"
    using inside dims by simp_all
  have b32: "x < 2 ^ 32" "y < 2 ^ 32" "x + w \<le> 2 ^ (32 - 4)" "y + h \<le> 2 ^ 32"
    using inside dims by simp_all
  have "(y - oy) * src_stride < 2 ^ 32"
    by (rule mult_le_less [OF _ lin]) (use inside in simp)
  moreover have "sizeof t \<le> 16"
    by (cases t) simp_all
  then have "(x - ox) * sizeof t \<le> 2 ^ 16 * 16"
    using b16 by (intro mult_le_mono) simp_all
  ultimately have off: "OFFSET ox oy src_stride (block_bits desc) src x y =
      linear_addr t src src_stride (y - oy) (x - ox)"
    using inside b32 by (intro OFFSET_linear [OF desc(2)]) simp_all
  have hl: "h * src_stride < 2 ^ 32"
    by (rule mult_le_less [OF _ lin]) (use inside in simp)
  note exact = unaligned_ops_exact [OF inside(1,3,4) tiled hl, where k = k and w = w and t = t
      and dst = dst and src = src]
  show ?thesis
  proof (cases "k = Interior")
    case True
    then have al: "16 dvd x" "16 dvd w"
      using r(2) unfolding fields by simp_all
    have "16 dvd u16 w"
      using al(2) b16 by (simp add: u16_def)
    then show ?thesis
      unfolding fields run_region_def prod.case
      by (simp only: True simp_thms if_True interior_fast [OF refl, of t, folded desc(2)] off fast_exec
          fast_ops_aligned [OF sizeof_shift al(1) b16] exact)
  next
    case False
    then show ?thesis
      unfolding fields run_region_def prod.case
      by (simp only: simp_thms if_False generic_unaligned [OF desc] off
          unaligned_exec [OF disjI2 [OF refl] b32(3,4)] exact)
  qed
qed

lemma fold_regions_exec:
  assumes "\<And>r. r \<in> set rs \<Longrightarrow> run_region desc ox oy dst src dst_stride src_stride r =
             exec t (f r)"
  shows "fold (run_region desc ox oy dst src dst_stride src_stride) rs m =
         exec t (concat (map f rs)) m"
  using assms by (induction rs arbitrary: m) (simp_all add: exec_def)

lemma store_exec:
  assumes desc: "\<not> 1 < block_width desc" "block_bits desc = 8 * sizeof t"
    and dims: "x + w < 2 ^ 16" "y + h < 2 ^ 16"
    and tiled: "tiled_size 4 dst_stride (y + h) < 2 ^ 32"
    and lin: "h * src_stride < 2 ^ 32"
  obtains ops where
    "panfrost_store_tiled_image dst src x y w h dst_stride src_stride desc m = exec t ops m"
    "set ops = pixel_op t True 4 dst dst_stride src src_stride x y ` ({x..<x + w} \<times> {y..<y + h})"
proof -
  let ?op = "pixel_op t True 4 dst dst_stride src src_stride x y"
  let ?rs = "store_regions x y w h"
  have sp: "splits ?rs x y w h"
    using dims by (intro store_regions_splits) simp_all
  then have each: "within x y w h r \<and> interior_aligned r" if "r \<in> set ?rs" for r
    using that unfolding splits_def by blast
  have "run_region desc x y dst src dst_stride src_stride r = exec t (map ?op (region_pixels r))"
    if "r \<in> set ?rs" for r
    by (rule ext) (use each [OF that] in \<open>simp add: region_exec [OF desc dims tiled lin]\<close>)
  then have 1: "panfrost_store_tiled_image dst src x y w h dst_stride src_stride desc m =
      exec t (concat (map (\<lambda>r. map ?op (region_pixels r)) ?rs)) m"
    unfolding store_as_regions [OF desc(1)] by (rule fold_regions_exec)
  have "set (concat (map (\<lambda>r. map ?op (region_pixels r)) ?rs)) = ?op ` (\<Union>r \<in> set ?rs. rect_set r)"
    by (simp add: set_region_pixels image_UN)
  also have "\<dots> = ?op ` ({x..<x + w} \<times> {y..<y + h})"
    using sp unfolding splits_def by simp
  finally show ?thesis
    using 1 that by blast
qed

lemma generic_grid:
  "block_bits desc = 8 * sizeof t \<Longrightarrow>
   panfrost_access_tiled_image_generic dst src x y w h dst_stride src_stride desc is_store m =
   TILED_UNALIGNED_TYPE t is_store (grid_shift desc) dst src x y (grid_w desc w) (grid_h desc h)
     dst_stride src_stride m"
  using generic_unaligned [of desc t] generic_compressed [of desc t]
  by (simp add: grid_shift_def grid_w_def grid_h_def)

lemma grid_shift_cases: "grid_shift desc = 2 \<or> grid_shift desc = 4"
  by (simp add: grid_shift_def)

lemma generic_exec:
  assumes bits: "block_bits desc = 8 * sizeof t"
    and dims: "x + grid_w desc w \<le> 2 ^ (32 - grid_shift desc)" "y + grid_h desc h \<le> 2 ^ 32"
    and tiled: "tiled_size (grid_shift desc) dst_stride (y + grid_h desc h) < 2 ^ 32"
    and lin: "grid_h desc h * src_stride < 2 ^ 32"
  shows "panfrost_access_tiled_image_generic dst src x y w h dst_stride src_stride desc is_store m =
         exec t (map (pixel_op t is_store (grid_shift desc) dst dst_stride src src_stride x y)
                   (region_pixels (k, x, y, grid_w desc w, grid_h desc h))) m"
  using unaligned_ops_exact [where ox = x and x = x and oy = y and y = y and
      h = "grid_h desc h" and H = "y + grid_h desc h" and ts = "grid_shift desc" and
      dst_stride = dst_stride and src_stride = src_stride and t = t and
      src = src and dst = dst and w = "grid_w desc w" and k = k and is_store = is_store,
      OF le_refl le_refl le_refl tiled lin]
  by (simp add: generic_grid [OF bits] unaligned_exec [OF grid_shift_cases dims] linear_addr_def)

lemma linear_addr_range:
  assumes "i < h" "j < w" "k < sizeof t"
  shows "src \<le> linear_addr t src stride i j + k"
    and "linear_addr t src stride i j + k < src + linear_extent t stride w h"
proof -
  show "src \<le> linear_addr t src stride i j + k"
    by (simp add: linear_addr_def)
  have 1: "i * stride \<le> (h - 1) * stride"
    using assms(1) by (intro mult_le_mono1) simp
  have "sizeof t * j + k < sizeof t * (j + 1)"
    using assms(3) by simp
  also have "\<dots> \<le> sizeof t * w"
    using assms(2) by (intro mult_le_mono2) simp
  finally have 2: "sizeof t * j + k < w * sizeof t"
    by (simp add: mult.commute)
  have "i * stride + (sizeof t * j + k) < (h - 1) * stride + w * sizeof t"
    using 1 2 by (rule add_le_less_mono)
  then show "linear_addr t src stride i j + k < src + linear_extent t stride w h"
    unfolding linear_addr_def linear_extent_def by simp
qed


lemma coherentI:
  assumes "\<And>d s d' s' k k'. (d, s) \<in> ops \<Longrightarrow> (d', s') \<in> ops \<Longrightarrow> k < sizeof t \<Longrightarrow>
             k' < sizeof t \<Longrightarrow> s + k \<noteq> d' + k'"
    and "\<And>d s d' s' k k'. (d, s) \<in> ops \<Longrightarrow> (d', s') \<in> ops \<Longrightarrow> k < sizeof t \<Longrightarrow>
             k' < sizeof t \<Longrightarrow> d + k = d' + k' \<Longrightarrow> s + k = s' + k'"
  shows "coherent t ops"
  unfolding coherent_def using assms by blast

lemma pixel_op_image:
  assumes "(d, s) \<in> pixel_op t is_store ts tiled ts_stride linear l_stride x y `
                     ({x..<x + w} \<times> {y..<y + h})"
  obtains px py where "x \<le> px" "px < x + w" "y \<le> py" "py < y + h"
    "copy_op is_store (tiled_addr t ts tiled ts_stride px py)
       (linear_addr t linear l_stride (py - y) (px - x)) = (d, s)"
  using assms by (auto simp: pixel_op_def)

lemma coherent_store_ops:
  assumes ts: "ts = 2 \<or> ts = 4"
    and stride: "sizeof t * 2 ^ ts * tiles ts (x + w) \<le> dst_stride"
    and sep: "src + linear_extent t src_stride w h \<le> dst \<or>
              dst + tiled_size ts dst_stride (y + h) \<le> src"
  shows "coherent t (pixel_op t True ts dst dst_stride src src_stride x y `
           ({x..<x + w} \<times> {y..<y + h}))"
proof (rule coherentI)
  fix d s d' s' k k'
  assume "(d, s) \<in> pixel_op t True ts dst dst_stride src src_stride x y ` ({x..<x + w} \<times> {y..<y + h})"
  then obtain px py where p: "x \<le> px" "px < x + w" "y \<le> py" "py < y + h"
    and ds: "d = tiled_addr t ts dst dst_stride px py" "s = linear_addr t src src_stride (py - y) (px - x)"
    by (rule pixel_op_image) (simp add: copy_op_def)
  assume "(d', s') \<in> pixel_op t True ts dst dst_stride src src_stride x y ` ({x..<x + w} \<times> {y..<y + h})"
  then obtain px' py' where p': "x \<le> px'" "px' < x + w" "y \<le> py'" "py' < y + h"
    and ds': "d' = tiled_addr t ts dst dst_stride px' py'"
      "s' = linear_addr t src src_stride (py' - y) (px' - x)"
    by (rule pixel_op_image) (simp add: copy_op_def)
  assume k: "k < sizeof t" "k' < sizeof t"
  have lin: "src \<le> s + k" "s + k < src + linear_extent t src_stride w h"
    unfolding ds using p k(1) by (auto intro!: linear_addr_range)
  have til: "dst \<le> d' + k'" "d' + k' < dst + tiled_size ts dst_stride (y + h)"
    unfolding ds' tiled_size_def
    using tiled_addr_range [OF ts p'(2) p'(4) stride k(2), of dst] by simp_all
  show "s + k \<noteq> d' + k'"
    using sep lin til by linarith
  show "s + k = s' + k'" if "d + k = d' + k'"
    using tiled_addr_inj [OF ts p(2) p'(2) stride k that [unfolded ds ds']] unfolding ds ds' by simp
qed


lemma exec_uncovered:
  assumes "\<And>p k. p \<in> P \<Longrightarrow> k < sizeof t \<Longrightarrow> a \<noteq> fst (f p) + k"
    and "rect_set r = P"
    and "exec t (map f (region_pixels r)) (Some m) = Some m'"
  shows "m' a = m a"
proof (rule exec_unwritten [OF _ assms(3)])
  fix d s
  assume "(d, s) \<in> set (map f (region_pixels r))"
  then obtain p where p: "p \<in> P" "f p = (d, s)"
    using assms(2) by (auto simp: set_region_pixels)
  have "a \<noteq> d + k" if "k < sizeof t" for k
    using assms(1) [OF p(1) that] p(2) by simp
  from this [of "a - d"] show "a < d \<or> d + sizeof t \<le> a"
    by arith
qed

lemma generic_store_written:
  assumes bits: "block_bits desc = 8 * sizeof t"
    and dims: "x + grid_w desc w \<le> 2 ^ (32 - grid_shift desc)" "y + grid_h desc h \<le> 2 ^ 32"
    and tiled: "tiled_size (grid_shift desc) dst_stride (y + grid_h desc h) < 2 ^ 32"
    and lin: "grid_h desc h * src_stride < 2 ^ 32"
    and stride: "sizeof t * 2 ^ grid_shift desc * tiles (grid_shift desc) (x + grid_w desc w) \<le> dst_stride"
    and sep: "src + linear_extent t src_stride (grid_w desc w) (grid_h desc h) \<le> dst \<or>
              dst + tiled_size (grid_shift desc) dst_stride (y + grid_h desc h) \<le> src"
    and p: "x \<le> px" "px < x + grid_w desc w" "y \<le> py" "py < y + grid_h desc h"
    and k: "k < sizeof t"
    and res: "panfrost_access_tiled_image_generic dst src x y w h dst_stride src_stride desc True
                (Some m) = Some m'"
  shows "m' (tiled_addr t (grid_shift desc) dst dst_stride px py + k) =
         m (linear_addr t src src_stride (py - y) (px - x) + k)"
proof -
  let ?op = "pixel_op t True (grid_shift desc) dst dst_stride src src_stride x y"
  let ?r = "(Interior, x, y, grid_w desc w, grid_h desc h)"
  have co: "coherent t (set (map ?op (region_pixels ?r)))"
    unfolding set_map set_region_pixels rect_set.simps
    by (rule coherent_store_ops [OF grid_shift_cases stride sep])
  have mem: "(tiled_addr t (grid_shift desc) dst dst_stride px py,
              linear_addr t src src_stride (py - y) (px - x)) \<in> set (map ?op (region_pixels ?r))"
    unfolding set_map set_region_pixels rect_set.simps
    using p by (intro image_eqI [where x = "(px, py)"]) (simp_all add: pixel_op_def copy_op_def)
  from res have "exec t (map ?op (region_pixels ?r)) (Some m) = Some m'"
    unfolding generic_exec [OF bits dims tiled lin, where k = Interior] .
  then show ?thesis
    by (rule exec_written [OF co mem k])
qed


lemma generic_store_frame:
  assumes bits: "block_bits desc = 8 * sizeof t"
    and dims: "x + grid_w desc w \<le> 2 ^ (32 - grid_shift desc)" "y + grid_h desc h \<le> 2 ^ 32"
    and tiled: "tiled_size (grid_shift desc) dst_stride (y + grid_h desc h) < 2 ^ 32"
    and lin: "grid_h desc h * src_stride < 2 ^ 32"
    and a: "\<And>px py k. x \<le> px \<Longrightarrow> px < x + grid_w desc w \<Longrightarrow> y \<le> py \<Longrightarrow> py < y + grid_h desc h \<Longrightarrow>
              k < sizeof t \<Longrightarrow> a \<noteq> tiled_addr t (grid_shift desc) dst dst_stride px py + k"
    and res: "panfrost_access_tiled_image_generic dst src x y w h dst_stride src_stride desc True
                (Some m) = Some m'"
  shows "m' a = m a"
proof (rule exec_uncovered [OF _ refl res [unfolded generic_exec [OF bits dims tiled lin,
        where k = Interior]]])
  fix p k
  assume p: "p \<in> rect_set (Interior, x, y, grid_w desc w, grid_h desc h)" and k: "k < sizeof t"
  obtain px py where pp: "p = (px, py)"
    by (cases p)
  have "a \<noteq> tiled_addr t (grid_shift desc) dst dst_stride px py + k"
    by (rule a) (use p k in \<open>simp_all add: pp\<close>)
  then show "a \<noteq> fst (pixel_op t True (grid_shift desc) dst dst_stride src src_stride x y p) + k"
    by (simp add: pp pixel_op_def copy_op_def)
qed


lemma store_is_generic:
  assumes desc: "\<not> 1 < block_width desc" "block_bits desc = 8 * sizeof t"
    and dims: "x + w < 2 ^ 16" "y + h < 2 ^ 16"
    and stride: "sizeof t * 16 * tiles 4 (x + w) \<le> dst_stride"
    and tiled: "tiled_size 4 dst_stride (y + h) < 2 ^ 32"
    and lin: "h * src_stride < 2 ^ 32"
    and sep: "src + linear_extent t src_stride w h \<le> dst \<or>
              dst + tiled_size 4 dst_stride (y + h) \<le> src"
  shows "panfrost_store_tiled_image dst src x y w h dst_stride src_stride desc m =
         panfrost_access_tiled_image_generic dst src x y w h dst_stride src_stride desc True m"
proof -
  let ?op = "pixel_op t True 4 dst dst_stride src src_stride x y"
  have g: "grid_shift desc = 4" "grid_w desc w = w" "grid_h desc h = h"
    using desc(1) by (simp_all add: grid_shift_def grid_w_def grid_h_def)
  obtain ops where ops:
    "panfrost_store_tiled_image dst src x y w h dst_stride src_stride desc m = exec t ops m"
    "set ops = ?op ` ({x..<x + w} \<times> {y..<y + h})"
    by (rule store_exec [OF desc dims tiled lin])
  have co: "coherent t (set ops)"
    unfolding ops(2) using stride sep by (intro coherent_store_ops) simp_all
  have "panfrost_access_tiled_image_generic dst src x y w h dst_stride src_stride desc True m =
        exec t (map ?op (region_pixels (Interior, x, y, w, h))) m"
    using generic_exec [OF desc(2), of x w y h dst_stride src_stride dst src True m Interior]
      dims tiled lin unfolding g by simp
  moreover have "set ops = set (map ?op (region_pixels (Interior, x, y, w, h)))"
    unfolding ops(2) set_map set_region_pixels rect_set.simps ..
  ultimately show ?thesis
    unfolding ops(1) using exec_cong_set [OF co] by simp
qed

lemma aligned_pixel_ops:
  assumes "alignof t dvd tiled" "alignof t dvd tiled_stride"
    and "alignof t dvd linear" "alignof t dvd linear_stride"
  shows "aligned_ops t (pixel_op t is_store ts tiled tiled_stride linear linear_stride ox oy ` P)"
proof -
  have "alignof t dvd tiled_addr t ts tiled tiled_stride px py"
    and "alignof t dvd linear_addr t linear linear_stride i j" for px py i j
    using assms by (simp_all add: tiled_addr_def linear_addr_def alignof_sizeof)
  then show ?thesis
    by (cases is_store) (auto simp: aligned_ops_def pixel_op_def copy_op_def)
qed

lemma generic_defined:
  assumes bits: "block_bits desc = 8 * sizeof t"
    and dims: "x + grid_w desc w \<le> 2 ^ (32 - grid_shift desc)" "y + grid_h desc h \<le> 2 ^ 32"
    and tiled: "tiled_size (grid_shift desc) dst_stride (y + grid_h desc h) < 2 ^ 32"
    and lin: "grid_h desc h * src_stride < 2 ^ 32"
    and al: "alignof t dvd dst" "alignof t dvd dst_stride"
      "alignof t dvd src" "alignof t dvd src_stride"
  shows "\<exists>m'. panfrost_access_tiled_image_generic dst src x y w h dst_stride src_stride desc
                is_store (Some m) = Some m'"
proof -
  have "aligned_ops t (set (map (pixel_op t is_store (grid_shift desc) dst dst_stride src src_stride x y)
                   (region_pixels (Interior, x, y, grid_w desc w, grid_h desc h))))"
    unfolding set_map by (rule aligned_pixel_ops [OF al])
  then show ?thesis
    unfolding generic_exec [OF bits dims tiled lin, where k = Interior]
    by (rule exec_defined)
qed

section \<open>The fast path against the generic path\<close>

lemma fast_is_unaligned:
  assumes al: "16 dvd x" "16 dvd w"
    and b: "x < 2 ^ 16" "y < 2 ^ 16" "w < 2 ^ 16" "h < 2 ^ 16" "y + h \<le> 2 ^ 16"
  shows "TILED_STORE_TYPE t (shift_of t) dst src x y w h dst_stride src_stride m =
         TILED_UNALIGNED_TYPE t True 4 dst src x y w h dst_stride src_stride m"
proof -
  have "16 dvd u16 w"
    using al(2) b(3) by (simp add: u16_def)
  moreover have "x + w \<le> 2 ^ (32 - 4)" "y + h \<le> 2 ^ 32"
    using b by simp_all
  ultimately show ?thesis
    by (simp only: fast_exec fast_ops_aligned [OF sizeof_shift al(1) b]
        unaligned_exec [OF disjI2 [OF refl]])
qed

text \<open>
  Claim C2, amended. For a rectangle whose \<open>x\<close> and \<open>w\<close> are multiples of 16, whose
  coordinates fit the \<open>uint16_t\<close> parameters of the fast path and whose rows end at or
  below row \<open>2 ^ 16\<close>, each fast-path store routine and the generic routine, run in
  store direction over the same rectangle for the format of that element size, end in the
  same state: the same memory, or both undefined by the same misaligned access.
\<close>

theorem fast_path_equals_generic:
  assumes "16 dvd x" "16 dvd w"
    and "x < 2 ^ 16" "y < 2 ^ 16" "w < 2 ^ 16" "h < 2 ^ 16" "y + h \<le> 2 ^ 16"
    and "\<not> 1 < block_width desc"
  shows "(block_bits desc = 8 \<longrightarrow>
            panfrost_store_tiled_image_uint8_t dst src x y w h dst_stride src_stride m =
            panfrost_access_tiled_image_generic dst src x y w h dst_stride src_stride desc True m) \<and>
         (block_bits desc = 16 \<longrightarrow>
            panfrost_store_tiled_image_uint16_t dst src x y w h dst_stride src_stride m =
            panfrost_access_tiled_image_generic dst src x y w h dst_stride src_stride desc True m) \<and>
         (block_bits desc = 32 \<longrightarrow>
            panfrost_store_tiled_image_uint32_t dst src x y w h dst_stride src_stride m =
            panfrost_access_tiled_image_generic dst src x y w h dst_stride src_stride desc True m) \<and>
         (block_bits desc = 64 \<longrightarrow>
            panfrost_store_tiled_image_uint64_t dst src x y w h dst_stride src_stride m =
            panfrost_access_tiled_image_generic dst src x y w h dst_stride src_stride desc True m) \<and>
         (block_bits desc = 128 \<longrightarrow>
            panfrost_store_tiled_image_pan_uint128_t dst src x y w h dst_stride src_stride m =
            panfrost_access_tiled_image_generic dst src x y w h dst_stride src_stride desc True m)"
  using fast_is_unaligned [OF assms(1-7), of uint8_t] fast_is_unaligned [OF assms(1-7), of uint16_t]
    fast_is_unaligned [OF assms(1-7), of uint32_t] fast_is_unaligned [OF assms(1-7), of uint64_t]
    fast_is_unaligned [OF assms(1-7), of pan_uint128_t]
    generic_unaligned [OF assms(8), of uint8_t] generic_unaligned [OF assms(8), of uint16_t]
    generic_unaligned [OF assms(8), of uint32_t] generic_unaligned [OF assms(8), of uint64_t]
    generic_unaligned [OF assms(8), of pan_uint128_t]
  by (simp add: panfrost_store_tiled_image_uint8_t_def
        panfrost_store_tiled_image_uint16_t_def panfrost_store_tiled_image_uint32_t_def
        panfrost_store_tiled_image_uint64_t_def panfrost_store_tiled_image_pan_uint128_t_def)

theorem fast_path_equals_generic_witness:
  "16 dvd (16::nat) \<and> 16 dvd (32::nat) \<and> (16::nat) < 2 ^ 16 \<and> (48::nat) + 16 \<le> 2 ^ 16 \<and>
   panfrost_store_tiled_image_uint32_t 4096 0 16 48 32 16 256 128 (Some (\<lambda>a. 0)) =
   panfrost_access_tiled_image_generic 4096 0 16 48 32 16 256 128
     \<lparr>block_width = 1, block_height = 1, block_bits = 32\<rparr> True (Some (\<lambda>a. 0))"
  using fast_path_equals_generic [of 16 32 48 16
      "\<lparr>block_width = 1, block_height = 1, block_bits = 32\<rparr>" 4096 0 256 128 "Some (\<lambda>a. 0)"]
  by simp

lemma aligned_uint8_t: "aligned_ops uint8_t ops"
  by (auto simp: aligned_ops_def)

lemma fast_ops_mem:
  assumes "(d, s) \<in> set (fast_ops t shift dst src sx0 sy0 w0 h0 dst_stride src_stride)"
  obtains i j where "i < u16 h0" "j < u16 w0"
    "d = dst + drop_bit 4 (u16 sx0) * PIXELS_PER_TILE * sizeof t
           + u32 (u16 ((u16 sy0 + i) div 16 * 16) * dst_stride)
           + j div 16 * push_bit shift PIXELS_PER_TILE
           + push_bit shift (interleave 4 j (u16 sy0 + i))"
proof -
  have "u16 sy0 + i < 2 ^ 32" if "i < u16 h0" for i
  proof -
    have "u16 sy0 < 2 ^ 16" "u16 h0 < 2 ^ 16"
      by (simp_all add: u16_def)
    then show ?thesis
      using that by simp
  qed
  then show ?thesis
    using assms that by (auto simp: fast_ops_def interleave_def and_15 and_not32_15)
qed

text \<open>
  Claim C2 as stated fails: for the rows 65520 to 65551 the fast path keeps \<open>block_y\<close> in
  16 bits, so that row 65536 is stored into the first row of tiles, where the generic
  routine stores it into tile row 4096.
\<close>

theorem fast_path_wraps_rows:
  "panfrost_store_tiled_image_uint8_t 4096 0 0 65520 16 32 16 16
     (Some (\<lambda>a. if a = 256 then 1 else 0)) \<noteq>
   panfrost_access_tiled_image_generic 4096 0 0 65520 16 32 16 16
     \<lparr>block_width = 1, block_height = 1, block_bits = 8\<rparr> True
     (Some (\<lambda>a. if a = 256 then 1 else 0))"
proof -
  let ?m = "\<lambda>a::nat. if a = 256 then 1 else 0 :: 8 word"
  let ?desc = "\<lparr>block_width = 1, block_height = 1, block_bits = 8\<rparr>"
  obtain g where g:
    "panfrost_access_tiled_image_generic 4096 0 0 65520 16 32 16 16 ?desc True (Some ?m) = Some g"
    using generic_defined [where t = uint8_t and desc = ?desc and x = 0 and y = 65520 and w = 16
        and h = 32 and dst = 4096 and src = 0 and dst_stride = 16 and src_stride = 16
        and is_store = True and m = ?m]
    by (auto simp: grid_shift_def grid_w_def grid_h_def tiled_size_def tiles_def)
  have "g (tiled_addr uint8_t (grid_shift ?desc) 4096 16 0 65536 + 0) =
        ?m (linear_addr uint8_t 0 16 (65536 - 65520) (0 - 0) + 0)"
    by (rule generic_store_written [OF _ _ _ _ _ _ _ _ _ _ _ _ g])
       (simp_all add: grid_shift_def grid_w_def grid_h_def tiled_size_def tiles_def
          linear_extent_def)
  then have g1: "g 1052672 = 1"
    by (simp add: grid_shift_def tiled_addr_def linear_addr_def interleave_def
        bit_duplication_def space_4_def)
  have "copies uint8_t (fast_ops uint8_t 0 4096 0 0 65520 16 32 16 16) ?m 1052672 = ?m 1052672"
  proof (rule copies_unwritten)
    fix d s
    assume "(d, s) \<in> set (fast_ops uint8_t 0 4096 0 0 65520 16 32 16 16)"
    then obtain i j where ij: "i < 32" "j < 16"
      and d: "d = 4096 + u32 (u16 ((65520 + i) div 16 * 16) * 16) + interleave 4 j (65520 + i)"
      by (rule fast_ops_mem) (simp add: u16_def)
    have I: "interleave 4 j (65520 + i) < 256"
      by (rule interleave_less_4)
    have "u32 (u16 ((65520 + i) div 16 * 16) * 16) \<le> 1048320"
    proof (cases "i < 16")
      case True
      then have "(65520 + i) div 16 = 4095"
        by simp
      then show ?thesis
        by (simp add: u16_def u32_def)
    next
      case False
      then have "(65520 + i) div 16 = 4096"
        using ij(1) by simp
      then show ?thesis
        by (simp add: u16_def u32_def)
    qed
    then show "1052672 < d \<or> d + sizeof uint8_t \<le> 1052672"
      using I unfolding d by simp
  qed
  then have f0: "copies uint8_t (fast_ops uint8_t 0 4096 0 0 65520 16 32 16 16) ?m 1052672 = 0"
    by simp
  have f: "panfrost_store_tiled_image_uint8_t 4096 0 0 65520 16 32 16 16 (Some ?m) =
      Some (copies uint8_t (fast_ops uint8_t 0 4096 0 0 65520 16 32 16 16) ?m)"
    by (simp add: panfrost_store_tiled_image_uint8_t_def fast_exec u16_def exec_Some
        aligned_uint8_t)
  show ?thesis
  proof
    assume "panfrost_store_tiled_image_uint8_t 4096 0 0 65520 16 32 16 16 (Some ?m) =
      panfrost_access_tiled_image_generic 4096 0 0 65520 16 32 16 16 ?desc True (Some ?m)"
    then have "g = copies uint8_t (fast_ops uint8_t 0 4096 0 0 65520 16 32 16 16) ?m"
      unfolding f g by simp
    then show False
      using f0 g1 by simp
  qed
qed

section \<open>The portions partition the rectangle\<close>

lemma right_order: "subseq (map fst (regions_right l x y w h)) [Right, Interior]"
  by (simp add: regions_right_def Let_def)

lemma left_order: "subseq (map fst (regions_left f l x y w h)) [Left, Right, Interior]"
  using right_order [of l x y w h] right_order [of l "u32 (x + MIN2 (sub32 f x) w)" y "sub32 w (MIN2 (sub32 f x) w)" h]
  by (simp add: regions_left_def Let_def list_emb_Cons)

lemma bottom_order:
  "subseq (map fst (regions_bottom f l ly x y w h)) [Bottom, Left, Right, Interior]"
  using left_order [of f l x y w h] left_order [of f l x y w "sub32 h (sub32 (u32 (y + h)) ly)"]
  by (simp add: regions_bottom_def Let_def list_emb_Cons)

lemma regions_order:
  "subseq (map fst (store_regions x y w h)) [Top, Bottom, Left, Right, Interior]"
  unfolding store_regions_def Let_def
  using bottom_order list_emb_Cons [OF bottom_order, of _ _ _ _ _ _ _ Top]
  by (simp split: if_splits)

lemma splits_parts:
  assumes "splits rs x y w h"
  shows "(\<Union>r \<in> set rs. rect_set r) = {x..<x + w} \<times> {y..<y + h}"
    and "disjoint_regions rs"
    and "\<And>k x' y' w' h'. (k, x', y', w', h') \<in> set rs \<Longrightarrow> k = Interior \<Longrightarrow>
           16 dvd x' \<and> 16 dvd y' \<and> 16 dvd w' \<and> 16 dvd h'"
proof -
  from assms have all: "(\<Union>r \<in> set rs. rect_set r) = {x..<x + w} \<times> {y..<y + h} \<and>
     disjoint_regions rs \<and> (\<forall>r \<in> set rs. within x y w h r \<and> interior_aligned r)"
    unfolding splits_def .
  from all show "(\<Union>r \<in> set rs. rect_set r) = {x..<x + w} \<times> {y..<y + h}"
    by (rule conjunct1)
  from all show "disjoint_regions rs"
    by (elim conjE)
  fix k x' y' w' h'
  assume "(k, x', y', w', h') \<in> set rs" "k = Interior"
  moreover from all have "\<And>r. r \<in> set rs \<Longrightarrow> interior_aligned r"
    by blast
  ultimately show "16 dvd x' \<and> 16 dvd y' \<and> 16 dvd w' \<and> 16 dvd h'"
    by fastforce
qed

text \<open>
  Claim C8. For an uncompressed format and a rectangle within the range of the unsigned
  coordinates, \<open>panfrost_store_tiled_image\<close> is the sequence of its calls for the portions
  of \<open>store_regions\<close>, taken from top, bottom, left, right and interior in this order; the
  portions are pairwise disjoint, their union is the rectangle, and the interior portion,
  handed to the fast path, has \<open>x\<close>, \<open>y\<close>, \<open>w\<close> and \<open>h\<close> each a multiple of 16.
\<close>

theorem store_portions_partition:
  assumes "x + w < 2 ^ 32" "y + h < 2 ^ 32" "\<not> 1 < block_width desc"
  shows "panfrost_store_tiled_image dst src x y w h dst_stride src_stride desc m =
           fold (run_region desc x y dst src dst_stride src_stride) (store_regions x y w h) m \<and>
         subseq (map fst (store_regions x y w h)) [Top, Bottom, Left, Right, Interior] \<and>
         disjoint_regions (store_regions x y w h) \<and>
         (\<Union>r \<in> set (store_regions x y w h). rect_set r) = {x..<x + w} \<times> {y..<y + h} \<and>
         (\<forall>(k, x', y', w', h') \<in> set (store_regions x y w h).
            k = Interior \<longrightarrow> 16 dvd x' \<and> 16 dvd y' \<and> 16 dvd w' \<and> 16 dvd h')"
  using splits_parts [OF store_regions_splits [OF assms(1,2)]] store_as_regions [OF assms(3)]
    regions_order [of x y w h]
  by (simp add: case_prod_unfold) (metis prod.collapse)

theorem store_portions_partition_witness:
  "(5::nat) + 40 < 2 ^ 32 \<and> (9::nat) + 30 < 2 ^ 32 \<and>
   store_regions 5 9 40 30 =
     [(Top, 5, 9, 40, 7), (Bottom, 5, 32, 40, 7), (Left, 5, 16, 11, 16), (Right, 32, 16, 13, 16),
      (Interior, 16, 16, 16, 16)] \<and>
   disjoint_regions (store_regions 5 9 40 30) \<and>
   (\<Union>r \<in> set (store_regions 5 9 40 30). rect_set r) = {5..<5 + 40} \<times> {9..<9 + 30}"
proof -
  have "store_regions 5 9 40 30 =
     [(Top, 5, 9, 40, 7), (Bottom, 5, 32, 40, 7), (Left, 5, 16, 11, 16), (Right, 32, 16, 13, 16),
      (Interior, 16, 16, 16, 16)]"
    by (simp add: store_regions_def regions_bottom_def regions_left_def regions_right_def Let_def
        DIV_ROUND_UP_def MIN2_def u32_def sub32_def TILE_WIDTH_def TILE_HEIGHT_def)
  then show ?thesis
    using store_portions_partition [of 5 40 9 30
        "\<lparr>block_width = 1, block_height = 1, block_bits = 32\<rparr>" 0 0 0 0 "Some (\<lambda>a. 0)"]
    by simp
qed

section \<open>The store against one generic pass\<close>

text \<open>
  Claim C3, amended. For an uncompressed format, a rectangle whose coordinates stay below
  \<open>2 ^ 16\<close>, a tiled stride that covers the rows of tiles, address arithmetic that stays
  within 32 bits and buffers that do not overlap, the portions of
  \<open>panfrost_store_tiled_image\<close> end in the same state as one call of the generic routine
  over the whole rectangle: the same memory, or both undefined, when an element of the
  rectangle is misaligned.
\<close>

theorem splitter_equals_generic:
  assumes "\<not> 1 < block_width desc" "block_bits desc = 8 * sizeof t"
    and "x + w < 2 ^ 16" "y + h < 2 ^ 16"
    and "sizeof t * 16 * tiles 4 (x + w) \<le> dst_stride"
    and "tiled_size 4 dst_stride (y + h) < 2 ^ 32"
    and "h * src_stride < 2 ^ 32"
    and "src + linear_extent t src_stride w h \<le> dst \<or>
         dst + tiled_size 4 dst_stride (y + h) \<le> src"
  shows "panfrost_store_tiled_image dst src x y w h dst_stride src_stride desc m =
         panfrost_access_tiled_image_generic dst src x y w h dst_stride src_stride desc True m"
  using assms by (rule store_is_generic)

theorem splitter_equals_generic_witness:
  "(5::nat) + 40 < 2 ^ 16 \<and> (9::nat) + 30 < 2 ^ 16 \<and>
   sizeof uint32_t * 16 * tiles 4 (5 + 40) \<le> 192 \<and>
   tiled_size 4 192 (9 + 30) < 2 ^ 32 \<and> (30::nat) * 160 < 2 ^ 32 \<and>
   0 + linear_extent uint32_t 160 40 30 \<le> 8192 \<and>
   panfrost_store_tiled_image 8192 0 5 9 40 30 192 160
     \<lparr>block_width = 1, block_height = 1, block_bits = 32\<rparr> (Some (\<lambda>a. 0)) =
   panfrost_access_tiled_image_generic 8192 0 5 9 40 30 192 160
     \<lparr>block_width = 1, block_height = 1, block_bits = 32\<rparr> True (Some (\<lambda>a. 0))"
  using splitter_equals_generic [of "\<lparr>block_width = 1, block_height = 1, block_bits = 32\<rparr>"
      uint32_t 5 40 9 30 192 160 0 8192 "Some (\<lambda>a. 0)"]
  by (simp add: tiles_def tiled_size_def linear_extent_def)

lemma store_column_65536:
  "panfrost_store_tiled_image 256 0 65536 0 16 16 65552 16
     \<lparr>block_width = 1, block_height = 1, block_bits = 8\<rparr> m =
   panfrost_access_tiled_image_generic 256 0 0 0 16 16 65552 16
     \<lparr>block_width = 1, block_height = 1, block_bits = 8\<rparr> True m"
proof -
  let ?desc = "\<lparr>block_width = 1, block_height = 1, block_bits = 8\<rparr>"
  have regions: "store_regions 65536 0 16 16 = [(Interior, 65536, 0, 16, 16)]"
    by (simp add: store_regions_def regions_bottom_def regions_left_def regions_right_def Let_def
        DIV_ROUND_UP_def MIN2_def u32_def sub32_def TILE_WIDTH_def TILE_HEIGHT_def)
  have "panfrost_store_tiled_image 256 0 65536 0 16 16 65552 16 ?desc m =
        TILED_STORE_TYPE uint8_t 0 256 0 65536 0 16 16 65552 16 m"
    by (simp add: store_as_regions regions run_region_def store_interior_def OFFSET_def
        sub32_def u32_def panfrost_store_tiled_image_uint8_t_def)
  also have "\<dots> = exec uint8_t (fast_ops uint8_t 0 256 0 65536 0 16 16 65552 16) m"
    by (rule fast_exec) (simp add: u16_def)
  also have "fast_ops uint8_t 0 256 0 65536 0 16 16 65552 16 =
             fast_ops uint8_t 0 256 0 0 0 16 16 65552 16"
    by (simp add: fast_ops_def u16_def)
  also have "\<dots> = unaligned_ops uint8_t True 4 256 0 0 0 16 16 65552 16"
    by (rule fast_ops_aligned) simp_all
  also have "exec uint8_t \<dots> m = TILED_UNALIGNED_TYPE uint8_t True 4 256 0 0 0 16 16 65552 16 m"
    by (rule unaligned_exec [symmetric]) simp_all
  also have "\<dots> = panfrost_access_tiled_image_generic 256 0 0 0 16 16 65552 16 ?desc True m"
    by (rule generic_unaligned [symmetric]) simp_all
  finally show ?thesis .
qed

lemma tile_0_bytes:
  assumes "px < 16" "py < 16"
  shows "tiled_addr uint8_t 4 256 65552 px py + k = 256 + interleave 4 px py + k"
    and "interleave 4 px py < 256"
  using assms by (simp_all add: tiled_addr_def interleave_less_4)

lemma tile_0_defined:
  "\<exists>m'. panfrost_access_tiled_image_generic 256 0 0 0 16 16 65552 16
           \<lparr>block_width = 1, block_height = 1, block_bits = 8\<rparr> True (Some m) = Some m'"
  by (rule generic_defined [where t = uint8_t])
     (simp_all add: grid_shift_def grid_w_def grid_h_def tiled_size_def tiles_def)

lemma tile_0_frame:
  assumes "panfrost_access_tiled_image_generic 256 0 0 0 16 16 65552 16
     \<lparr>block_width = 1, block_height = 1, block_bits = 8\<rparr> True (Some m) = Some m'"
  shows "m' 1048832 = m 1048832"
proof (rule generic_store_frame [where t = uint8_t, OF _ _ _ _ _ _ assms])
  let ?desc = "\<lparr>block_width = 1, block_height = 1, block_bits = 8\<rparr>"
  fix px py k
  assume "px < 0 + grid_w ?desc 16" "py < 0 + grid_h ?desc 16" "k < sizeof uint8_t"
  then have "px < 16" "py < 16" "k = 0"
    by (simp_all add: grid_w_def grid_h_def)
  then show "1048832 \<noteq> tiled_addr uint8_t (grid_shift ?desc) 256 65552 px py + k"
    using tile_0_bytes(1) [of px py 0] tile_0_bytes(2) [of px py] by (simp add: grid_shift_def)
qed (simp_all add: grid_shift_def grid_w_def grid_h_def tiled_size_def tiles_def)

lemma column_4096_written:
  assumes "panfrost_access_tiled_image_generic 256 0 65536 0 16 16 65552 16
     \<lparr>block_width = 1, block_height = 1, block_bits = 8\<rparr> True (Some m) = Some m'"
  shows "m' 1048832 = m 0"
proof -
  let ?desc = "\<lparr>block_width = 1, block_height = 1, block_bits = 8\<rparr>"
  have "m' (tiled_addr uint8_t (grid_shift ?desc) 256 65552 65536 0 + 0) =
        m (linear_addr uint8_t 0 16 (0 - 0) (65536 - 65536) + 0)"
    by (rule generic_store_written [OF _ _ _ _ _ _ _ _ _ _ _ _ assms])
       (simp_all add: grid_shift_def grid_w_def grid_h_def tiled_size_def tiles_def
          linear_extent_def)
  then show ?thesis
    by (simp add: grid_shift_def tiled_addr_def linear_addr_def interleave_def
        bit_duplication_def space_4_def)
qed

text \<open>
  Claim C3 as stated fails: at \<open>x = 65536\<close> the interior is handed to the fast path, whose
  \<open>uint16_t\<close> parameter \<open>sx\<close> is then 0, so that the tile is stored into tile column 0, where
  the generic routine stores it into tile column 4096.
\<close>

theorem splitter_wraps_columns:
  "panfrost_store_tiled_image 256 0 65536 0 16 16 65552 16
     \<lparr>block_width = 1, block_height = 1, block_bits = 8\<rparr>
     (Some (\<lambda>a. if a = 0 then 1 else 0)) \<noteq>
   panfrost_access_tiled_image_generic 256 0 65536 0 16 16 65552 16
     \<lparr>block_width = 1, block_height = 1, block_bits = 8\<rparr> True
     (Some (\<lambda>a. if a = 0 then 1 else 0))"
proof -
  let ?m = "\<lambda>a::nat. if a = 0 then 1 else 0 :: 8 word"
  let ?desc = "\<lparr>block_width = 1, block_height = 1, block_bits = 8\<rparr>"
  obtain f where f:
    "panfrost_access_tiled_image_generic 256 0 0 0 16 16 65552 16 ?desc True (Some ?m) = Some f"
    using tile_0_defined [of ?m] by blast
  have f0: "f 1048832 = 0"
    using tile_0_frame [OF f] by simp
  show ?thesis
  proof
    assume "panfrost_store_tiled_image 256 0 65536 0 16 16 65552 16 ?desc (Some ?m) =
      panfrost_access_tiled_image_generic 256 0 65536 0 16 16 65552 16 ?desc True (Some ?m)"
    then have "panfrost_access_tiled_image_generic 256 0 65536 0 16 16 65552 16 ?desc True
        (Some ?m) = Some f"
      unfolding store_column_65536 f by simp
    from column_4096_written [OF this] show False
      using f0 by simp
  qed
qed

section \<open>Store, then load\<close>



lemma misaligned_load_undefined:
  "panfrost_load_tiled_image 8200 0 0 0 1 1 16 256
     \<lparr>block_width = 1, block_height = 1, block_bits = 128\<rparr> (Some m) = None"
proof -
  let ?desc = "\<lparr>block_width = 1, block_height = 1, block_bits = 128\<rparr>"
  have "panfrost_load_tiled_image 8200 0 0 0 1 1 16 256 ?desc (Some m) =
        TILED_UNALIGNED_TYPE pan_uint128_t False 4 0 8200 0 0 1 1 256 16 (Some m)"
    unfolding panfrost_load_tiled_image_def by (rule generic_unaligned) simp_all
  also have "\<dots> = exec pan_uint128_t
      (unaligned_ops pan_uint128_t False 4 0 8200 0 0 1 1 256 16) (Some m)"
    by (rule unaligned_exec) simp_all
  also have "unaligned_ops pan_uint128_t False 4 0 8200 0 0 1 1 256 16 = [(8200, 0)]"
    by (simp add: unaligned_ops_def copy_op_def wtiled_def wlinear_def interleave_def u32_def
        bit_duplication_def space_4_def)
  also have "exec pan_uint128_t [(8200, 0)] (Some m) = None"
    by (simp add: exec_def assign_pixel_def)
  finally show ?thesis .
qed




section \<open>What a store and a load leave untouched\<close>






section \<open>The load and the compressed store\<close>

text \<open>
  Claim C6. For every format and rectangle, \<open>panfrost_load_tiled_image\<close> is one call of
  the generic routine over the whole rectangle, with the tiled source in the place of
  \<open>dst\<close>, the linear destination in the place of \<open>src\<close>, the strides swapped with them and
  the direction flag false: one pass of the unaligned loops, with no portions and no fast
  path.
\<close>

theorem load_is_one_generic_pass:
  "panfrost_load_tiled_image dst src x y w h dst_stride src_stride desc m =
     panfrost_access_tiled_image_generic src dst x y w h src_stride dst_stride desc False m \<and>
   panfrost_load_tiled_image dst src x y w h dst_stride src_stride desc m =
     TILED_UNALIGNED_TYPES (block_bits desc) False (grid_shift desc) src dst x y
       (grid_w desc w) (grid_h desc h) src_stride dst_stride m"
  by (simp add: panfrost_load_tiled_image_def panfrost_access_tiled_image_generic_def
      grid_shift_def grid_w_def grid_h_def Let_def)




section \<open>The offset of an element within its tile\<close>

lemma wtiled_tile_0:
  assumes "lx < 16" "ly < 16"
  shows "wtiled t 4 dst stride lx ly = dst + (bit_duplication ! ly XOR space_4 ! lx) * sizeof t"
  using assms by (simp add: wtiled_def interleave_def u32_def)

lemma unaligned_single:
  assumes "lx < 16" "ly < 16"
  shows "TILED_UNALIGNED_TYPE t is_store 4 dst src lx ly 1 1 dst_stride src_stride m =
         (if is_store
          then assign_pixel t (dst + (bit_duplication ! ly XOR space_4 ! lx) * sizeof t) src m
          else assign_pixel t src (dst + (bit_duplication ! ly XOR space_4 ! lx) * sizeof t) m)"
proof -
  have "lx + 1 \<le> 2 ^ (32 - 4)" "ly + 1 \<le> 2 ^ 32"
    using assms by simp_all
  then show ?thesis
    using assms
    by (simp add: unaligned_exec unaligned_ops_def exec_def wtiled_tile_0 wlinear_def u32_def
        copy_op_def)
qed

lemma fast_tile_0:
  "TILED_STORE_TYPE t (shift_of t) dst src 0 0 16 16 dst_stride src_stride m =
   exec t (map (\<lambda>(ly, lx). (dst + (bit_duplication ! ly XOR space_4 ! lx) * sizeof t,
                              src + u32 (ly * src_stride) + sizeof t * lx))
             (List.product [0..<16] [0..<16])) m"
proof -
  have "fast_ops t (shift_of t) dst src 0 0 16 16 dst_stride src_stride =
        unaligned_ops t True 4 dst src 0 0 16 16 dst_stride src_stride"
    by (rule fast_ops_aligned [OF sizeof_shift]) simp_all
  also have "\<dots> = map (\<lambda>(ly, lx). (dst + (bit_duplication ! ly XOR space_4 ! lx) * sizeof t,
                              src + u32 (ly * src_stride) + sizeof t * lx))
             (List.product [0..<16] [0..<16])"
    unfolding unaligned_ops_def
    by (rule map_cong [OF refl]) (auto simp: copy_op_def wtiled_tile_0 wlinear_def)
  finally show ?thesis
    by (simp add: fast_exec u16_def)
qed

text \<open>
  Claim C4. For local coordinates \<open>lx\<close> and \<open>ly\<close> below 16 and an element type of 1, 2, 4,
  8 or 16 bytes, the element is copied to or from the byte offset
  \<open>(bit_duplication[ly] XOR space_4[lx]) * sizeof t\<close> of the tile: by the generic routine in
  store direction, by the load, and by the fast path storing the tile, whose inner loop body
  computes that index; and for 4-byte elements the pixel \<open>(3, 2)\<close> lies at byte offset 36.
\<close>

theorem tile_offset_formula:
  assumes "lx < 16" "ly < 16" "\<not> 1 < block_width desc" "block_bits desc = 8 * sizeof t"
  shows "panfrost_access_tiled_image_generic dst src lx ly 1 1 dst_stride src_stride desc True m =
           assign_pixel t (dst + (bit_duplication ! ly XOR space_4 ! lx) * sizeof t) src m \<and>
         panfrost_load_tiled_image src dst lx ly 1 1 src_stride dst_stride desc m =
           assign_pixel t src (dst + (bit_duplication ! ly XOR space_4 ! lx) * sizeof t) m \<and>
         store_tile_pixel t (shift_of t) (push_bit (shift_of t) (bit_duplication ! ly)) dst lx (src, m) =
           (src + sizeof t,
            assign_pixel t (dst + (bit_duplication ! ly XOR space_4 ! lx) * sizeof t) src m) \<and>
         TILED_STORE_TYPE t (shift_of t) dst src 0 0 16 16 dst_stride src_stride m =
           exec t (map (\<lambda>(ly, lx). (dst + (bit_duplication ! ly XOR space_4 ! lx) * sizeof t,
                                      src + u32 (ly * src_stride) + sizeof t * lx))
                     (List.product [0..<16] [0..<16])) m \<and>
         (bit_duplication ! 2 XOR space_4 ! 3) * sizeof uint32_t = 36"
proof (intro conjI)
  show "panfrost_access_tiled_image_generic dst src lx ly 1 1 dst_stride src_stride desc True m =
           assign_pixel t (dst + (bit_duplication ! ly XOR space_4 ! lx) * sizeof t) src m"
    unfolding generic_unaligned [OF assms(3,4)] unaligned_single [OF assms(1,2)] by simp
  show "panfrost_load_tiled_image src dst lx ly 1 1 src_stride dst_stride desc m =
           assign_pixel t src (dst + (bit_duplication ! ly XOR space_4 ! lx) * sizeof t) m"
    unfolding panfrost_load_tiled_image_def generic_unaligned [OF assms(3,4)]
      unaligned_single [OF assms(1,2)] by simp
  have "push_bit (shift_of t) (bit_duplication ! ly) XOR push_bit (shift_of t) (space_4 ! lx) =
        push_bit (shift_of t) (bit_duplication ! ly XOR space_4 ! lx)"
    by simp
  also have "\<dots> = (bit_duplication ! ly XOR space_4 ! lx) * sizeof t"
    by (simp add: push_bit_eq_mult sizeof_shift del: push_bit_xor)
  finally show "store_tile_pixel t (shift_of t) (push_bit (shift_of t) (bit_duplication ! ly)) dst lx (src, m) =
           (src + sizeof t,
            assign_pixel t (dst + (bit_duplication ! ly XOR space_4 ! lx) * sizeof t) src m)"
    by (simp add: store_tile_pixel_def)
  show "TILED_STORE_TYPE t (shift_of t) dst src 0 0 16 16 dst_stride src_stride m =
           exec t (map (\<lambda>(ly, lx). (dst + (bit_duplication ! ly XOR space_4 ! lx) * sizeof t,
                                      src + u32 (ly * src_stride) + sizeof t * lx))
                     (List.product [0..<16] [0..<16])) m"
    by (rule fast_tile_0)
  show "(bit_duplication ! 2 XOR space_4 ! 3) * sizeof uint32_t = 36"
    by (simp add: bit_duplication_def space_4_def)
qed

theorem tile_offset_formula_witness:
  "(3::nat) < 16 \<and> (2::nat) < 16 \<and>
   panfrost_access_tiled_image_generic 4096 0 3 2 1 1 64 64
     \<lparr>block_width = 1, block_height = 1, block_bits = 32\<rparr> True (Some (\<lambda>a. of_nat a)) =
   assign_pixel uint32_t (4096 + 36) 0 (Some (\<lambda>a. of_nat a)) \<and>
   panfrost_load_tiled_image 0 4096 3 2 1 1 64 64
     \<lparr>block_width = 1, block_height = 1, block_bits = 32\<rparr> (Some (\<lambda>a. of_nat a)) =
   assign_pixel uint32_t 0 (4096 + 36) (Some (\<lambda>a. of_nat a))"
proof -
  let ?desc = "\<lparr>block_width = 1, block_height = 1, block_bits = 32\<rparr>"
  have h: "(3::nat) < 16" "(2::nat) < 16" "\<not> 1 < block_width ?desc"
    "block_bits ?desc = 8 * sizeof uint32_t"
    by simp_all
  have o: "(bit_duplication ! 2 XOR space_4 ! 3) * sizeof uint32_t = 36"
    by (simp add: bit_duplication_def space_4_def)
  note th = tile_offset_formula [OF h, where dst = 4096 and src = 0 and dst_stride = 64
      and src_stride = 64 and m = "Some (\<lambda>a. of_nat a)", unfolded o]
  from th [THEN conjunct1] th [THEN conjunct2, THEN conjunct1] h(1,2)
  show ?thesis
    by (intro conjI)
qed


end
